theory Spec2Isabelle
  imports Main "HOL-Library.Word"
begin

section \<open>JavaScript strings and numbers\<close>

text \<open>
  A JavaScript string is a sequence of UTF-16 code units. The regular expression of the
  generator has no \<open>u\<close> flag, so it matches code unit by code unit, and
  \<open>charCodeAt\<close> reads one code unit. A string literal of the source is written
  \<open>js ''...''\<close>.
\<close>

type_synonym code_unit = "16 word"
type_synonym jsstring = "code_unit list"

definition js :: "string \<Rightarrow> jsstring" where
  "js s = map of_char s"

text \<open>
  \<open>String.prototype.trim\<close>: removes the WhiteSpace and LineTerminator code points of
  ECMAScript from both ends (TAB, LF, VT, FF, CR, SP, NBSP, U+1680, U+2000..U+200A,
  U+2028, U+2029, U+202F, U+205F, U+3000, U+FEFF).
\<close>

definition isWhiteSpace :: "code_unit \<Rightarrow> bool" where
  "isWhiteSpace c \<longleftrightarrow>
     c = 0x09 \<or> c = 0x0A \<or> c = 0x0B \<or> c = 0x0C \<or> c = 0x0D \<or> c = 0x20 \<or> c = 0xA0 \<or>
     c = 0x1680 \<or> (0x2000 \<le> c \<and> c \<le> 0x200A) \<or> c = 0x2028 \<or> c = 0x2029 \<or>
     c = 0x202F \<or> c = 0x205F \<or> c = 0x3000 \<or> c = 0xFEFF"

definition trim :: "jsstring \<Rightarrow> jsstring" where
  "trim s = rev (dropWhile isWhiteSpace (rev (dropWhile isWhiteSpace s)))"

text \<open>
  \<open>SANITIZE_REGEX = /[^A-Za-z0-9_]+/g\<close>. \<open>regex_class\<close> is the negated class: the
  code units the expression matches. \<open>replace_SANITIZE_REGEX s r\<close> is
  \<open>s.replace(SANITIZE_REGEX, r)\<close>: scanning from the left, a code unit outside the
  class is copied; at a code unit of the class the greedy \<open>+\<close> takes every following
  code unit of the class with it, and the match is replaced by \<open>r\<close>.
\<close>

definition identifier_unit :: "code_unit \<Rightarrow> bool" where
  "identifier_unit c \<longleftrightarrow>
     (0x41 \<le> c \<and> c \<le> 0x5A) \<or> (0x61 \<le> c \<and> c \<le> 0x7A) \<or> (0x30 \<le> c \<and> c \<le> 0x39) \<or> c = 0x5F"

definition regex_class :: "code_unit \<Rightarrow> bool" where
  "regex_class c \<longleftrightarrow> \<not> identifier_unit c"

function replace_SANITIZE_REGEX :: "jsstring \<Rightarrow> jsstring \<Rightarrow> jsstring" where
  "replace_SANITIZE_REGEX [] r = []"
| "replace_SANITIZE_REGEX (c # cs) r =
     (if regex_class c then r @ replace_SANITIZE_REGEX (dropWhile regex_class cs) r
      else c # replace_SANITIZE_REGEX cs r)"
  by pat_completeness auto
termination
  by (relation "measure (\<lambda>(s, r). length s)")
     (auto simp: less_Suc_eq_le length_dropWhile_le)

text \<open>
  \<open>String.prototype.toUpperCase\<close>, on the strings the generator gives it: the result
  of the replacement above holds only code units of \<open>[A-Za-z0-9_]\<close> (lemma
  \<open>replace_identifier_units\<close> below), and on those the Unicode upper-casing changes
  exactly \<open>a\<close>..\<open>z\<close>. Code units outside ASCII are left as they are here; the
  generator never upper-cases one.
\<close>

definition upper_unit :: "code_unit \<Rightarrow> code_unit" where
  "upper_unit c = (if 0x61 \<le> c \<and> c \<le> 0x7A then c - 0x20 else c)"

definition toUpperCase :: "jsstring \<Rightarrow> jsstring" where
  "toUpperCase s = map upper_unit s"

text \<open>\<open>s.charCodeAt(i)\<close>: the code unit at \<open>i\<close>, or NaN (here \<open>None\<close>) out of range.\<close>

definition charCodeAt :: "jsstring \<Rightarrow> nat \<Rightarrow> code_unit option" where
  "charCodeAt s i = (if i < length s then Some (s ! i) else None)"

text \<open>
  The engine. Three things depend on the JavaScript engine that runs the generator and
  are parameters of the model: the greatest length a string may have (an operation that
  would build a longer one raises a RangeError), the greatest number of members a
  \<open>Set\<close> may have (\<open>add\<close> raises a RangeError beyond it), and the text the engine
  prints for a number that is no safe integer. Exhausted memory ends the process; it is no
  exception and is not modelled.
\<close>

record engine =
  max_string_length :: nat
  max_set_size :: nat
  unsafe_integer_text :: "int \<Rightarrow> jsstring"

text \<open>
  Numbers. The ids, the version, the count and the indent width are JavaScript numbers
  holding integers; they are modelled as \<open>int\<close>. \<open>Number_toString\<close> is the
  conversion a template literal applies. For a safe integer, one of magnitude at most
  \<open>2^53 - 1\<close>, it gives the decimal digits, with a minus sign when negative. Beyond,
  a double holds only some integers and the engine prints the shortest digits that read
  back as the same double, in exponent form from \<open>10^21\<close> on; the model takes that
  text from the engine.
\<close>

fun digits :: "nat \<Rightarrow> jsstring" where
  "digits n = (if n < 10 then [0x30 + of_nat n] else digits (n div 10) @ [0x30 + of_nat (n mod 10)])"

declare digits.simps [simp del]

definition safe_integer :: "int \<Rightarrow> bool" where
  "safe_integer i \<longleftrightarrow> \<bar>i\<bar> \<le> 9007199254740991"

definition Number_toString :: "engine \<Rightarrow> int \<Rightarrow> jsstring" where
  "Number_toString e i =
     (if safe_integer i then (if i < 0 then js ''-'' @ digits (nat (- i)) else digits (nat i))
      else unsafe_integer_text e i)"

datatype error = InvalidFileType | NoSuchFile | NotAFile | SyntaxError | NotLoaded | RangeError

text \<open>
  \<open>new_string e s\<close> is the outcome of an operation that builds the string \<open>s\<close>:
  the string, or a RangeError when it would be longer than the engine allows.
  \<open>s.repeat(count)\<close> raises a RangeError for a negative count and for a result that
  would be too long, and returns \<open>count\<close> copies of \<open>s\<close> otherwise.
\<close>

definition new_string :: "engine \<Rightarrow> jsstring \<Rightarrow> error + jsstring" where
  "new_string e s = (if length s \<le> max_string_length e then Inr s else Inl RangeError)"

definition repeat :: "engine \<Rightarrow> jsstring \<Rightarrow> int \<Rightarrow> error + jsstring" where
  "repeat e s count =
     (if count < 0 \<or> max_string_length e < length s * nat count then Inl RangeError
      else Inr (concat (replicate (nat count) s)))"

text \<open>
  \<open>Set<string>\<close>: a JavaScript set keeps its elements in insertion order, without
  duplicates. \<open>Set_add\<close> is \<open>add\<close> on a set with room; \<open>Set_add_checked\<close> is
  \<open>add\<close> as the engine performs it.
\<close>

definition Set_has :: "jsstring list \<Rightarrow> jsstring \<Rightarrow> bool" where
  "Set_has s x \<longleftrightarrow> x \<in> set s"

definition Set_add :: "jsstring list \<Rightarrow> jsstring \<Rightarrow> jsstring list" where
  "Set_add s x = (if x \<in> set s then s else s @ [x])"

definition Set_add_checked :: "engine \<Rightarrow> jsstring list \<Rightarrow> jsstring \<Rightarrow> error + jsstring list" where
  "Set_add_checked e s x =
     (if x \<in> set s then Inr s
      else if length s < max_set_size e then Inr (s @ [x])
      else Inl RangeError)"

text \<open>
  Arrays of strings with holes: \<open>new Array(len)\<close> holds \<open>len\<close> empty slots. A write
  past the end extends the array; setting \<open>length\<close> truncates or extends it;
  \<open>join\<close> renders an empty slot as the empty string.
\<close>

type_synonym jsarray = "jsstring option list"

definition new_Array :: "nat \<Rightarrow> jsarray" where
  "new_Array len = replicate len None"

definition array_set :: "jsarray \<Rightarrow> nat \<Rightarrow> jsstring \<Rightarrow> jsarray" where
  "array_set a i v =
     (if i < length a then a[i := Some v] else a @ replicate (i - length a) None @ [Some v])"

definition set_length :: "jsarray \<Rightarrow> nat \<Rightarrow> jsarray" where
  "set_length a n = take n a @ replicate (n - length a) None"

definition slot_string :: "jsstring option \<Rightarrow> jsstring" where
  "slot_string x = (case x of None \<Rightarrow> [] | Some s \<Rightarrow> s)"

fun join_strings :: "jsstring \<Rightarrow> jsstring list \<Rightarrow> jsstring" where
  "join_strings sep [] = []"
| "join_strings sep [x] = x"
| "join_strings sep (x # y # ys) = x @ sep @ join_strings sep (y # ys)"

definition join :: "jsarray \<Rightarrow> jsstring \<Rightarrow> jsstring" where
  "join a sep = join_strings sep (map slot_string a)"

section \<open>The generator\<close>

record ItemData =
  item_id :: int
  name :: jsstring

record ItemsFile =
  version :: int
  item_count :: int
  items :: "ItemData option list"

text \<open>
  An element of \<open>items\<close> is \<open>None\<close> when the array holds a falsy value (null) at that
  index: the loop tests \<open>if (!item) continue\<close>.
\<close>

definition INVALID_NAMES :: "jsstring set" where
  "INVALID_NAMES = set (map js ['''', ''0'', ''NULL'', ''NONE'', ''N''])"

definition RESERVED_KEYWORDS :: "jsstring set" where
  "RESERVED_KEYWORDS = set (map js
    [''AUTO'', ''BREAK'', ''CASE'', ''CHAR'', ''CONST'', ''CONTINUE'', ''DEFAULT'', ''DO'',
     ''DOUBLE'', ''ELSE'', ''ENUM'', ''EXTERN'', ''FLOAT'', ''FOR'', ''GOTO'', ''IF'', ''INT'',
     ''LONG'', ''REGISTER'', ''RETURN'', ''SHORT'', ''SIGNED'', ''SIZEOF'', ''STATIC'',
     ''STRUCT'', ''SWITCH'', ''TYPEDEF'', ''UNION'', ''UNSIGNED'', ''VOID'', ''VOLATILE'',
     ''WHILE'',
     ''ASM'', ''BOOL'', ''CATCH'', ''CLASS'', ''CONST_CAST'', ''DELETE'', ''DYNAMIC_CAST'',
     ''EXPLICIT'', ''EXPORT'', ''FALSE'', ''FRIEND'', ''INLINE'', ''MUTABLE'', ''NAMESPACE'',
     ''NEW'', ''OPERATOR'', ''PRIVATE'', ''PROTECTED'', ''PUBLIC'', ''REINTERPRET_CAST'',
     ''STATIC_CAST'', ''TEMPLATE'', ''THIS'', ''THROW'', ''TRUE'', ''TRY'', ''TYPEID'',
     ''TYPENAME'', ''USING'', ''VIRTUAL'', ''WCHAR_T'',
     ''ALIGNAS'', ''ALIGNOF'', ''CHAR16_T'', ''CHAR32_T'', ''CONSTEXPR'', ''DECLTYPE'',
     ''NOEXCEPT'', ''NULLPTR'', ''STATIC_ASSERT'', ''THREAD_LOCAL'',
     ''CONCEPT'', ''REQUIRES'', ''CO_AWAIT'', ''CO_RETURN'', ''CO_YIELD'',
     ''NULL'', ''DATE'', ''TIME''])"

text \<open>
  The class: its one field, \<open>null\<close> until a file is loaded.
\<close>

record GenerateItemsEnum =
  itemsData :: "ItemsFile option"

definition new_GenerateItemsEnum :: GenerateItemsEnum where
  "new_GenerateItemsEnum = \<lparr>itemsData = None\<rparr>"

subsection \<open>loadFromFile\<close>

text \<open>
  The file system and \<open>JSON.parse\<close> are parameters: \<open>fs\<close> gives what is at a path
  (\<open>statSync\<close> raises when nothing is), \<open>JSON_parse\<close> the document a text holds or
  the error it raises.
\<close>

datatype fs_node = Directory | RegularFile jsstring

definition endsWith :: "jsstring \<Rightarrow> jsstring \<Rightarrow> bool" where
  "endsWith s e \<longleftrightarrow> length e \<le> length s \<and> drop (length s - length e) s = e"

definition loadFromFile ::
  "(jsstring \<Rightarrow> fs_node option) \<Rightarrow> (jsstring \<Rightarrow> error + ItemsFile) \<Rightarrow>
   GenerateItemsEnum \<Rightarrow> jsstring \<Rightarrow> error + GenerateItemsEnum" where
  "loadFromFile fs JSON_parse this filePath =
     (if \<not> endsWith filePath (js ''.json'') then Inl InvalidFileType
      else case fs filePath of
        None \<Rightarrow> Inl NoSuchFile
      | Some Directory \<Rightarrow> Inl NotAFile
      | Some (RegularFile text) \<Rightarrow>
          (case JSON_parse text of
             Inl e \<Rightarrow> Inl e
           | Inr d \<Rightarrow> Inr (this\<lparr>itemsData := Some d\<rparr>)))"

subsection \<open>The accessors\<close>

definition itemsVersion :: "GenerateItemsEnum \<Rightarrow> int" where
  "itemsVersion this = (case itemsData this of None \<Rightarrow> - 1 | Some d \<Rightarrow> version d)"

definition itemsCount :: "GenerateItemsEnum \<Rightarrow> int" where
  "itemsCount this = (case itemsData this of None \<Rightarrow> - 1 | Some d \<Rightarrow> item_count d)"

subsection \<open>buildEnum\<close>

text \<open>
  Lines 89 to 94: the sanitization and the leading digit. A comparison with NaN is false,
  so the empty string gets no underscore.
\<close>

definition code_between :: "code_unit option \<Rightarrow> code_unit \<Rightarrow> code_unit \<Rightarrow> bool" where
  "code_between x lo hi = (case x of None \<Rightarrow> False | Some c \<Rightarrow> lo \<le> c \<and> c \<le> hi)"

definition sanitize :: "jsstring \<Rightarrow> jsstring" where
  "sanitize nm =
     (let sanitized = toUpperCase (replace_SANITIZE_REGEX (trim nm) (js ''_''))
      in if code_between (charCodeAt sanitized 0) 48 57 then js ''_'' @ sanitized else sanitized)"

text \<open>Lines 99 to 101: the suffix of a reserved keyword.\<close>

definition keyword_guard :: "jsstring \<Rightarrow> jsstring" where
  "keyword_guard sanitized =
     (if sanitized \<in> RESERVED_KEYWORDS then sanitized @ js ''_'' else sanitized)"

text \<open>
  Lines 104 to 109: the loop that looks for a name not yet used. \<open>suffixed sanitized k\<close>
  is the template literal of line 107; the counter \<open>k\<close> is printed as its decimal
  digits. The loop ends because the set is finite and the candidates are pairwise
  different, which is what the termination proof says.
\<close>

definition suffixed :: "jsstring \<Rightarrow> nat \<Rightarrow> jsstring" where
  "suffixed sanitized suffix = sanitized @ js ''_'' @ digits suffix"

definition digits_value :: "jsstring \<Rightarrow> nat" where
  "digits_value s = foldl (\<lambda>a c. 10 * a + (unat c - 48)) 0 s"

lemma unat_digit: "d < 10 \<Longrightarrow> unat (0x30 + of_nat d :: code_unit) = 48 + d"
  by (simp add: unat_word_ariths unat_of_nat)

lemma digits_value_digits: "digits_value (digits n) = n"
proof (induction n rule: digits.induct)
  case (1 n)
  show ?case
  proof (cases "n < 10")
    case True
    then show ?thesis
      by (simp add: digits.simps [of n] digits_value_def unat_digit)
  next
    case False
    with 1 have "digits_value (digits (n div 10)) = n div 10" by simp
    with False show ?thesis
      by (simp add: digits.simps [of n] digits_value_def unat_digit)
  qed
qed

lemma digits_inj: "digits m = digits n \<Longrightarrow> m = n"
  by (metis digits_value_digits)

lemma suffixed_inj: "inj (suffixed s)"
  by (auto simp: inj_on_def suffixed_def dest: digits_inj)

lemma finite_suffixes: "finite {j. k \<le> j \<and> suffixed s j \<in> set U}"
proof -
  have "finite (suffixed s -` set U)"
    by (rule finite_vimageI) (simp_all add: suffixed_inj)
  moreover have "{j. k \<le> j \<and> suffixed s j \<in> set U} \<subseteq> suffixed s -` set U"
    by auto
  ultimately show ?thesis by (rule rev_finite_subset)
qed

lemma suffixes_step:
  "{j. k \<le> j \<and> suffixed s j \<in> set U} =
     (if suffixed s k \<in> set U then insert k {j. Suc k \<le> j \<and> suffixed s j \<in> set U}
      else {j. Suc k \<le> j \<and> suffixed s j \<in> set U})"
  by (auto simp: Suc_le_eq le_less)

function while_usedNames_has :: "jsstring list \<Rightarrow> jsstring \<Rightarrow> jsstring \<Rightarrow> nat \<Rightarrow> jsstring" where
  "while_usedNames_has usedNames sanitized finalName suffix =
     (if Set_has usedNames finalName
      then while_usedNames_has usedNames sanitized (suffixed sanitized suffix) (suffix + 1)
      else finalName)"
  by pat_completeness auto
termination
proof (relation "measure (\<lambda>(U, s, f, k).
          (if f \<in> set U then 1 else 0) + card {j. k \<le> j \<and> suffixed s j \<in> set U})", goal_cases)
  case 1
  show ?case by simp
next
  case (2 U s f k)
  then have f: "f \<in> set U" by (simp add: Set_has_def)
  have "card {j. k \<le> j \<and> suffixed s j \<in> set U} =
        (if suffixed s k \<in> set U then 1 else 0) + card {j. Suc k \<le> j \<and> suffixed s j \<in> set U}"
    by (subst suffixes_step) (simp add: finite_suffixes)
  with f show ?case by simp
qed

declare while_usedNames_has.simps [simp del]

definition resolve :: "jsstring list \<Rightarrow> jsstring \<Rightarrow> jsstring" where
  "resolve usedNames sanitized = while_usedNames_has usedNames sanitized sanitized 2"

text \<open>
  The three steps as the engine runs them. Every operation that builds a string (the
  underscore of line 93, the template literals of lines 100 and 107) raises a RangeError
  when the string would be longer than the engine allows. \<open>trim\<close>, \<open>replace\<close> with
  a one-character replacement and \<open>toUpperCase\<close> on the replaced text return a string no
  longer than the one they are given and reach no limit. The counter \<open>suffix\<close> never
  passes the size of the set by more than 2; a set holds far fewer than \<open>2^53\<close>
  names, so the counter is a safe integer, is incremented exactly, and prints as its
  decimal digits.
\<close>

definition sanitize_checked :: "engine \<Rightarrow> jsstring \<Rightarrow> error + jsstring" where
  "sanitize_checked e nm =
     (let sanitized = toUpperCase (replace_SANITIZE_REGEX (trim nm) (js ''_''))
      in if code_between (charCodeAt sanitized 0) 48 57 then new_string e (js ''_'' @ sanitized)
         else Inr sanitized)"

definition keyword_guard_checked :: "engine \<Rightarrow> jsstring \<Rightarrow> error + jsstring" where
  "keyword_guard_checked e sanitized =
     (if sanitized \<in> RESERVED_KEYWORDS then new_string e (sanitized @ js ''_'')
      else Inr sanitized)"

function while_usedNames_has_checked ::
  "engine \<Rightarrow> jsstring list \<Rightarrow> jsstring \<Rightarrow> jsstring \<Rightarrow> nat \<Rightarrow> error + jsstring" where
  "while_usedNames_has_checked e usedNames sanitized finalName suffix =
     (if Set_has usedNames finalName
      then (if length (suffixed sanitized suffix) \<le> max_string_length e
            then while_usedNames_has_checked e usedNames sanitized
                   (suffixed sanitized suffix) (suffix + 1)
            else Inl RangeError)
      else Inr finalName)"
  by pat_completeness auto
termination
proof (relation "measure (\<lambda>(e, U, s, f, k).
          (if f \<in> set U then 1 else 0) + card {j. k \<le> j \<and> suffixed s j \<in> set U})", goal_cases)
  case 1
  show ?case by simp
next
  case (2 e U s f k)
  then have f: "f \<in> set U" by (simp add: Set_has_def)
  have "card {j. k \<le> j \<and> suffixed s j \<in> set U} =
        (if suffixed s k \<in> set U then 1 else 0) + card {j. Suc k \<le> j \<and> suffixed s j \<in> set U}"
    by (subst suffixes_step) (simp add: finite_suffixes)
  with f show ?case by simp
qed

declare while_usedNames_has_checked.simps [simp del]

text \<open>Line 112: the line of one item.\<close>

definition enum_line :: "engine \<Rightarrow> jsstring \<Rightarrow> jsstring \<Rightarrow> int \<Rightarrow> jsstring" where
  "enum_line e indent finalName i =
     indent @ finalName @ js '' = '' @ Number_toString e i @ js '',''"

text \<open>
  The state of the loop of lines 84 to 113, and its body. \<open>loop_body\<close>, \<open>for_loop\<close>,
  \<open>run_loop\<close> and \<open>enum_lines\<close> say what the loop computes as long as no limit of
  the engine is reached; \<open>loop_body_checked\<close> and \<open>for_loop_checked\<close> further down
  add, operation by operation, the RangeError the engine raises when one is.
\<close>

record loop_state =
  lines :: jsarray
  lineIdx :: nat
  usedNames :: "jsstring list"

definition loop_body :: "engine \<Rightarrow> jsstring \<Rightarrow> ItemData option \<Rightarrow> loop_state \<Rightarrow> loop_state" where
  "loop_body e indent item st =
     (case item of
        None \<Rightarrow> st
      | Some it \<Rightarrow>
          (let sanitized = sanitize (name it) in
           if sanitized \<in> INVALID_NAMES then st
           else
             (let sanitized = keyword_guard sanitized;
                  finalName = resolve (usedNames st) sanitized
              in \<lparr>lines = array_set (lines st) (lineIdx st)
                            (enum_line e indent finalName (item_id it)),
                  lineIdx = lineIdx st + 1,
                  usedNames = Set_add (usedNames st) finalName\<rparr>)))"

function for_loop ::
  "engine \<Rightarrow> jsstring \<Rightarrow> ItemData option list \<Rightarrow> nat \<Rightarrow> nat \<Rightarrow> loop_state \<Rightarrow> loop_state" where
  "for_loop e indent its len i st =
     (if i < len then for_loop e indent its len (i + 1) (loop_body e indent (its ! i) st)
      else st)"
  by pat_completeness auto
termination
  by (relation "measure (\<lambda>(e, indent, its, len, i, st). len - i)") auto

declare for_loop.simps [simp del]

text \<open>
  \<open>run_loop e indent its\<close> is the state at line 115, \<open>enum_lines\<close> the array after
  line 116 and \<open>enum_text\<close> the text of line 118, all three when no limit is reached.
\<close>

definition run_loop :: "engine \<Rightarrow> jsstring \<Rightarrow> ItemData option list \<Rightarrow> loop_state" where
  "run_loop e indent its =
     for_loop e indent its (length its) 0
       \<lparr>lines = new_Array (length its), lineIdx = 0, usedNames = []\<rparr>"

definition enum_lines :: "engine \<Rightarrow> jsstring \<Rightarrow> ItemData option list \<Rightarrow> jsarray" where
  "enum_lines e indent its =
     (let st = run_loop e indent its in set_length (lines st) (lineIdx st))"

definition enum_text :: "engine \<Rightarrow> jsstring \<Rightarrow> ItemData option list \<Rightarrow> jsstring" where
  "enum_text e indent its =
     js ''enum eItems {\<newline>'' @ join (enum_lines e indent its) (js ''\<newline>'') @ js ''\<newline>};\<newline>''"

text \<open>
  The loop and the method as the engine runs them: \<open>add\<close>, the template literals of
  lines 112 and 118, \<open>repeat\<close> and \<open>join\<close> raise a RangeError when they pass a limit,
  and the error ends the call.
\<close>

definition loop_body_checked ::
  "engine \<Rightarrow> jsstring \<Rightarrow> ItemData option \<Rightarrow> loop_state \<Rightarrow> error + loop_state" where
  "loop_body_checked e indent item st =
     (case item of
        None \<Rightarrow> Inr st
      | Some it \<Rightarrow>
          (case sanitize_checked e (name it) of
             Inl x \<Rightarrow> Inl x
           | Inr sanitized \<Rightarrow>
               if sanitized \<in> INVALID_NAMES then Inr st
               else
                 (case keyword_guard_checked e sanitized of
                    Inl x \<Rightarrow> Inl x
                  | Inr sanitized \<Rightarrow>
                      (case while_usedNames_has_checked e (usedNames st) sanitized sanitized 2 of
                         Inl x \<Rightarrow> Inl x
                       | Inr finalName \<Rightarrow>
                           (case Set_add_checked e (usedNames st) finalName of
                              Inl x \<Rightarrow> Inl x
                            | Inr used \<Rightarrow>
                                (case new_string e (enum_line e indent finalName (item_id it)) of
                                   Inl x \<Rightarrow> Inl x
                                 | Inr line \<Rightarrow>
                                     Inr \<lparr>lines = array_set (lines st) (lineIdx st) line,
                                          lineIdx = lineIdx st + 1,
                                          usedNames = used\<rparr>))))))"

function for_loop_checked ::
  "engine \<Rightarrow> jsstring \<Rightarrow> ItemData option list \<Rightarrow> nat \<Rightarrow> nat \<Rightarrow> loop_state \<Rightarrow> error + loop_state" where
  "for_loop_checked e indent its len i st =
     (if i < len
      then (case loop_body_checked e indent (its ! i) st of
              Inl x \<Rightarrow> Inl x
            | Inr st' \<Rightarrow> for_loop_checked e indent its len (i + 1) st')
      else Inr st)"
  by pat_completeness auto
termination
  by (relation "measure (\<lambda>(e, indent, its, len, i, st). len - i)") auto

declare for_loop_checked.simps [simp del]

text \<open>
  \<open>buildEnum\<close> is the method and \<open>buildEnum_default\<close> the call without an argument.
\<close>

definition buildEnum :: "engine \<Rightarrow> GenerateItemsEnum \<Rightarrow> int \<Rightarrow> error + jsstring" where
  "buildEnum e this tabSize =
     (case itemsData this of
        None \<Rightarrow> Inl NotLoaded
      | Some d \<Rightarrow>
          (case repeat e (js '' '') tabSize of
             Inl x \<Rightarrow> Inl x
           | Inr indent \<Rightarrow>
               (case for_loop_checked e indent (items d) (length (items d)) 0
                       \<lparr>lines = new_Array (length (items d)), lineIdx = 0, usedNames = []\<rparr> of
                  Inl x \<Rightarrow> Inl x
                | Inr st \<Rightarrow>
                    (case new_string e (join (set_length (lines st) (lineIdx st)) (js ''\<newline>'')) of
                       Inl x \<Rightarrow> Inl x
                     | Inr joined \<Rightarrow>
                         new_string e (js ''enum eItems {\<newline>'' @ joined @ js ''\<newline>};\<newline>'')))))"

definition buildEnum_default :: "engine \<Rightarrow> GenerateItemsEnum \<Rightarrow> error + jsstring" where
  "buildEnum_default e this = buildEnum e this 4"

section \<open>The pipeline as the specification describes it\<close>

text \<open>
  The specification speaks of the ordered sequence of accepted (identifier, id) pairs that
  the renderer receives. \<open>accepted_pairs U its\<close> is that sequence for the records
  \<open>its\<close>, starting from the used names \<open>U\<close>: a record is sanitized, dropped when
  the result is a sentinel, guarded against the keywords and resolved against the names
  used so far. \<open>records\<close> are the records of a catalog and \<open>survives\<close> says that a
  record passes the sentinel filter. \<open>line_identifier w l\<close> reads the identifier back
  from an output line of indent width \<open>w\<close>: what stands between the indent and the
  first space.
\<close>

fun accepted_pairs :: "jsstring list \<Rightarrow> ItemData option list \<Rightarrow> (jsstring \<times> int) list" where
  "accepted_pairs U [] = []"
| "accepted_pairs U (None # its) = accepted_pairs U its"
| "accepted_pairs U (Some it # its) =
     (if sanitize (name it) \<in> INVALID_NAMES then accepted_pairs U its
      else (let finalName = resolve U (keyword_guard (sanitize (name it)))
            in (finalName, item_id it) # accepted_pairs (Set_add U finalName) its))"

definition pair_line :: "engine \<Rightarrow> jsstring \<Rightarrow> jsstring \<times> int \<Rightarrow> jsstring" where
  "pair_line e indent p = enum_line e indent (fst p) (snd p)"

definition survives :: "ItemData \<Rightarrow> bool" where
  "survives it \<longleftrightarrow> sanitize (name it) \<notin> INVALID_NAMES"

definition records :: "ItemData option list \<Rightarrow> ItemData list" where
  "records its = concat (map (\<lambda>x. case x of None \<Rightarrow> [] | Some it \<Rightarrow> [it]) its)"

definition line_identifier :: "nat \<Rightarrow> jsstring \<Rightarrow> jsstring" where
  "line_identifier w l = takeWhile (\<lambda>c. c \<noteq> 0x20) (drop w l)"

text \<open>The code units an identifier of the output is made of: \<open>[A-Z0-9_]\<close>.\<close>

definition enum_unit :: "code_unit \<Rightarrow> bool" where
  "enum_unit c \<longleftrightarrow> (0x41 \<le> c \<and> c \<le> 0x5A) \<or> (0x30 \<le> c \<and> c \<le> 0x39) \<or> c = 0x5F"

text \<open>
  The limits of the engine, said once for the whole call: the indent of width \<open>w\<close> is a
  string the engine allows, the set of used names has room for the name of every line, and
  the text of the output is a string the engine allows. The text holds every line, so
  its bound is one for all of them.
\<close>

definition within_limits :: "engine \<Rightarrow> nat \<Rightarrow> ItemData option list \<Rightarrow> bool" where
  "within_limits e w its \<longleftrightarrow>
     w \<le> max_string_length e \<and>
     length (accepted_pairs [] its) \<le> max_set_size e \<and>
     length (enum_text e (replicate w 0x20) its) \<le> max_string_length e"

text \<open>
  The limits of V8 as Node.js runs it on a 64-bit platform: a string has at most
  \<open>2^29 - 24\<close> code units and a \<open>Set\<close> at most \<open>2^24\<close> members. The text of a
  number that is no safe integer stays a parameter.
\<close>

definition node_engine :: "(int \<Rightarrow> jsstring) \<Rightarrow> engine" where
  "node_engine f =
     \<lparr>max_string_length = 536870888, max_set_size = 16777216, unsafe_integer_text = f\<rparr>"











section \<open>Example catalogs\<close>

text \<open>
  Two names that differ in case and surrounding whitespace only; the catalog of the
  end-to-end example of the specification; three names of which the third equals the
  suffixed name of the second; an empty name, a name of whitespace and a name without any
  identifier character; a name that sanitizes to a sentinel, before another record.
\<close>

definition potion_catalog :: ItemsFile where
  "potion_catalog = \<lparr>version = 7, item_count = 2,
     items = [Some \<lparr>item_id = 7, name = js '' Potion''\<rparr>,
              Some \<lparr>item_id = - 3, name = js ''potion''\<rparr>]\<rparr>"

definition example_catalog :: ItemsFile where
  "example_catalog = \<lparr>version = 1, item_count = 4,
     items = [Some \<lparr>item_id = 1, name = js ''Health Potion''\<rparr>,
              Some \<lparr>item_id = 2, name = js ''0''\<rparr>,
              Some \<lparr>item_id = 3, name = js ''class''\<rparr>,
              Some \<lparr>item_id = 4, name = js ''Health-Potion''\<rparr>]\<rparr>"

definition suffix_catalog :: ItemsFile where
  "suffix_catalog = \<lparr>version = 1, item_count = 3,
     items = [Some \<lparr>item_id = 1, name = js ''A''\<rparr>, Some \<lparr>item_id = 2, name = js ''A''\<rparr>,
              Some \<lparr>item_id = 3, name = js ''A_2''\<rparr>]\<rparr>"

definition odd_names_catalog :: ItemsFile where
  "odd_names_catalog = \<lparr>version = 1, item_count = 3,
     items = [Some \<lparr>item_id = 1, name = js ''''\<rparr>, Some \<lparr>item_id = 2, name = js ''   ''\<rparr>,
              Some \<lparr>item_id = 3, name = js ''!?!''\<rparr>]\<rparr>"

definition sentinel_catalog :: ItemsFile where
  "sentinel_catalog = \<lparr>version = 1, item_count = 2,
     items = [Some \<lparr>item_id = 9, name = js '' null ''\<rparr>,
              Some \<lparr>item_id = 7, name = js ''potion''\<rparr>]\<rparr>"

text \<open>
  \<open>crowded_catalog n\<close> has \<open>n\<close> records with the id 0 and the names \<open>A0\<close>,
  \<open>A1\<close>, ... up to \<open>A65535\<close>, then \<open>A0\<close> again.
\<close>

definition crowded_catalog :: "nat \<Rightarrow> ItemsFile" where
  "crowded_catalog n =
     \<lparr>version = 1, item_count = int n,
      items = map (\<lambda>k. Some \<lparr>item_id = 0, name = js ''A'' @ digits (k mod 65536)\<rparr>) [0..<n]\<rparr>"

section \<open>String literals\<close>

lemma unat_of_char: "unat (of_char c :: code_unit) = of_char c"
proof -
  have "(of_char c :: nat) < 256" by simp
  then have "(of_char c :: nat) < 2 ^ 16" by (rule less_trans) simp
  then have "unat (of_nat (of_char c) :: code_unit) = of_char c"
    by (simp add: unat_of_nat)
  then show ?thesis by (simp add: of_nat_of_char)
qed

lemma of_char_unit_inj: "(of_char c :: code_unit) = of_char d \<longleftrightarrow> c = d"
proof
  assume "(of_char c :: code_unit) = of_char d"
  then have "unat (of_char c :: code_unit) = unat (of_char d :: code_unit)" by simp
  then show "c = d" by (simp add: unat_of_char)
qed simp

lemma js_eq_iff: "js a = js b \<longleftrightarrow> a = b"
proof -
  have "inj (of_char :: char \<Rightarrow> code_unit)"
    by (rule injI) (simp add: of_char_unit_inj)
  then show ?thesis by (simp add: js_def inj_map_eq_map)
qed

lemma js_append: "js a @ js b = js (a @ b)"
  by (simp add: js_def)

lemma js_mem: "js a \<in> set (map js L) \<longleftrightarrow> a \<in> set L"
  by (auto simp: js_eq_iff)

lemma reserved_js: "js a \<in> RESERVED_KEYWORDS \<longleftrightarrow> a \<in> set
    [''AUTO'', ''BREAK'', ''CASE'', ''CHAR'', ''CONST'', ''CONTINUE'', ''DEFAULT'', ''DO'',
     ''DOUBLE'', ''ELSE'', ''ENUM'', ''EXTERN'', ''FLOAT'', ''FOR'', ''GOTO'', ''IF'', ''INT'',
     ''LONG'', ''REGISTER'', ''RETURN'', ''SHORT'', ''SIGNED'', ''SIZEOF'', ''STATIC'',
     ''STRUCT'', ''SWITCH'', ''TYPEDEF'', ''UNION'', ''UNSIGNED'', ''VOID'', ''VOLATILE'',
     ''WHILE'',
     ''ASM'', ''BOOL'', ''CATCH'', ''CLASS'', ''CONST_CAST'', ''DELETE'', ''DYNAMIC_CAST'',
     ''EXPLICIT'', ''EXPORT'', ''FALSE'', ''FRIEND'', ''INLINE'', ''MUTABLE'', ''NAMESPACE'',
     ''NEW'', ''OPERATOR'', ''PRIVATE'', ''PROTECTED'', ''PUBLIC'', ''REINTERPRET_CAST'',
     ''STATIC_CAST'', ''TEMPLATE'', ''THIS'', ''THROW'', ''TRUE'', ''TRY'', ''TYPEID'',
     ''TYPENAME'', ''USING'', ''VIRTUAL'', ''WCHAR_T'',
     ''ALIGNAS'', ''ALIGNOF'', ''CHAR16_T'', ''CHAR32_T'', ''CONSTEXPR'', ''DECLTYPE'',
     ''NOEXCEPT'', ''NULLPTR'', ''STATIC_ASSERT'', ''THREAD_LOCAL'',
     ''CONCEPT'', ''REQUIRES'', ''CO_AWAIT'', ''CO_RETURN'', ''CO_YIELD'',
     ''NULL'', ''DATE'', ''TIME'']"
  unfolding RESERVED_KEYWORDS_def by (rule js_mem)

lemma invalid_js:
  "js a \<in> INVALID_NAMES \<longleftrightarrow> a \<in> set ['''', ''0'', ''NULL'', ''NONE'', ''N'']"
  unfolding INVALID_NAMES_def by (rule js_mem)

lemmas string_eval = js_def trim_def isWhiteSpace_def regex_class_def identifier_unit_def
  toUpperCase_def upper_unit_def charCodeAt_def code_between_def sanitize_def

lemmas text_eval = js_def Number_toString_def safe_integer_def digits.simps eval_nat_numeral

lemmas js_eval = keyword_guard_def reserved_js invalid_js resolve_def
  while_usedNames_has.simps Set_has_def Set_add_def suffixed_def js_append js_eq_iff Let_def

lemma number_2: "digits 2 = js ''2''"
  by (simp add: text_eval)

lemma sanitize_examples:
  "sanitize (js ''A'') = js ''A''"
  "sanitize (js ''A_2'') = js ''A_2''"
  "sanitize (js ''Health Potion'') = js ''HEALTH_POTION''"
  "sanitize (js ''0'') = js ''_0''"
  "sanitize (js ''class'') = js ''CLASS''"
  "sanitize (js ''Health-Potion'') = js ''HEALTH_POTION''"
  "sanitize (js '' Potion'') = js ''POTION''"
  "sanitize (js ''potion'') = js ''POTION''"
  "sanitize (js '''') = js ''''"
  "sanitize (js ''   '') = js ''''"
  "sanitize (js ''!?!'') = js ''_''"
  "sanitize (js ''9mm'') = js ''_9MM''"
  "sanitize (js '' null '') = js ''NULL''"
  "sanitize (js ''Potion!'') = js ''POTION_''"
  "sanitize (js ''Potion?'') = js ''POTION_''"
  "sanitize (js ''  a - !b  '') = js ''A_B''"
  by (simp_all add: string_eval)

lemma potion_pairs:
  "accepted_pairs [] (items potion_catalog) = [(js ''POTION'', 7), (js ''POTION_2'', - 3)]"
  by (simp add: potion_catalog_def sanitize_examples js_eval number_2)

lemma example_pairs:
  "accepted_pairs [] (items example_catalog) =
     [(js ''HEALTH_POTION'', 1), (js ''_0'', 2), (js ''CLASS_'', 3), (js ''HEALTH_POTION_2'', 4)]"
  by (simp add: example_catalog_def sanitize_examples js_eval number_2)

lemma suffix_pairs:
  "accepted_pairs [] (items suffix_catalog) = [(js ''A'', 1), (js ''A_2'', 2), (js ''A_2_2'', 3)]"
  by (simp add: suffix_catalog_def sanitize_examples js_eval number_2)

lemma odd_pairs: "accepted_pairs [] (items odd_names_catalog) = [(js ''_'', 3)]"
  by (simp add: odd_names_catalog_def sanitize_examples js_eval)

section \<open>The loop that looks for a free name\<close>

lemma while_free: "\<not> Set_has U f \<Longrightarrow> while_usedNames_has U s f k = f"
  by (simp add: while_usedNames_has.simps)

lemma while_taken:
  "Set_has U f \<Longrightarrow> while_usedNames_has U s f k = while_usedNames_has U s (suffixed s k) (k + 1)"
  by (subst while_usedNames_has.simps) simp

lemma while_first_free:
  "f \<in> set U \<Longrightarrow>
   \<exists>m\<ge>k. while_usedNames_has U s f k = suffixed s m \<and> suffixed s m \<notin> set U \<and>
     (\<forall>j. k \<le> j \<and> j < m \<longrightarrow> suffixed s j \<in> set U)"
proof (induction U s f k rule: while_usedNames_has.induct)
  case (1 U s f k)
  then have taken: "Set_has U f" by (simp add: Set_has_def)
  show ?case
  proof (cases "suffixed s k \<in> set U")
    case False
    then have "while_usedNames_has U s f k = suffixed s k"
      using taken by (simp add: while_taken while_free Set_has_def)
    with False show ?thesis by (intro exI [of _ k]) auto
  next
    case True
    from "1.IH" [OF taken True] obtain m where m: "k + 1 \<le> m"
      "while_usedNames_has U s (suffixed s k) (k + 1) = suffixed s m" "suffixed s m \<notin> set U"
      "\<forall>j. k + 1 \<le> j \<and> j < m \<longrightarrow> suffixed s j \<in> set U" by blast
    have "\<forall>j. k \<le> j \<and> j < m \<longrightarrow> suffixed s j \<in> set U"
    proof (intro allI impI)
      fix j assume "k \<le> j \<and> j < m"
      then have "j = k \<or> (k + 1 \<le> j \<and> j < m)" by arith
      with True m(4) show "suffixed s j \<in> set U" by blast
    qed
    with m taken show ?thesis
      by (intro exI [of _ m]) (simp add: while_taken)
  qed
qed

lemma resolve_free: "c \<notin> set U \<Longrightarrow> resolve U c = c"
  by (simp add: resolve_def while_free Set_has_def)

lemma resolve_taken:
  "c \<in> set U \<Longrightarrow>
   \<exists>k\<ge>2. resolve U c = suffixed c k \<and> suffixed c k \<notin> set U \<and>
     (\<forall>j. 2 \<le> j \<and> j < k \<longrightarrow> suffixed c j \<in> set U)"
  unfolding resolve_def by (rule while_first_free)

lemma resolve_fresh: "resolve U c \<notin> set U"
  by (cases "c \<in> set U") (auto simp: resolve_free dest: resolve_taken)

lemma Set_add_resolve: "Set_add U (resolve U c) = U @ [resolve U c]"
  by (simp add: Set_add_def resolve_fresh)

section \<open>The loop over the items\<close>

lemma for_loop_foldl:
  "i \<le> length its \<Longrightarrow>
   for_loop e indent its (length its) i st = foldl (\<lambda>st x. loop_body e indent x st) st (drop i its)"
proof (induction e indent its "length its" i st rule: for_loop.induct)
  case (1 e indent its i st)
  show ?case
  proof (cases "i < length its")
    case True
    then have "drop i its = its ! i # drop (i + 1) its"
      by (simp add: Cons_nth_drop_Suc)
    with True 1 show ?thesis
      by (subst for_loop.simps) simp
  next
    case False
    with 1 show ?thesis by (subst for_loop.simps) simp
  qed
qed

lemma length_accepted_pairs: "length (accepted_pairs U its) \<le> length its"
  by (induction U its rule: accepted_pairs.induct) (auto simp: Let_def)

lemma array_set_fill:
  "0 < n \<Longrightarrow> array_set (map Some ls @ replicate n None) (length ls) v
     = map Some (ls @ [v]) @ replicate (n - 1) None"
  by (cases n) (simp_all add: array_set_def list_update_append)

text \<open>
  The invariant of the loop: the array holds the lines written so far, then empty slots;
  \<open>lineIdx\<close> is the number of lines; the used names are those of the lines, in order.
\<close>

lemma foldl_loop_body:
  "length its \<le> n \<Longrightarrow>
   foldl (\<lambda>st x. loop_body e indent x st)
     \<lparr>lines = map Some ls @ replicate n None, lineIdx = length ls, usedNames = U\<rparr> its =
   \<lparr>lines = map Some (ls @ map (pair_line e indent) (accepted_pairs U its))
              @ replicate (n - length (accepted_pairs U its)) None,
    lineIdx = length ls + length (accepted_pairs U its),
    usedNames = U @ map fst (accepted_pairs U its)\<rparr>"
proof (induction U its arbitrary: ls n rule: accepted_pairs.induct)
  case (1 U)
  show ?case by simp
next
  case (2 U its)
  then show ?case by (simp add: loop_body_def)
next
  case (3 U it its)
  show ?case
  proof (cases "sanitize (name it) \<in> INVALID_NAMES")
    case True
    with 3 show ?thesis by (simp add: loop_body_def)
  next
    case False
    define f where "f = resolve U (keyword_guard (sanitize (name it)))"
    from "3.prems" have n: "0 < n" "length its \<le> n - 1" by simp_all
    have step: "loop_body e indent (Some it)
        \<lparr>lines = map Some ls @ replicate n None, lineIdx = length ls, usedNames = U\<rparr> =
        \<lparr>lines = map Some (ls @ [enum_line e indent f (item_id it)]) @ replicate (n - 1) None,
         lineIdx = length (ls @ [enum_line e indent f (item_id it)]), usedNames = Set_add U f\<rparr>"
      using False n by (simp add: loop_body_def f_def array_set_fill Let_def)
    have add: "Set_add U f = U @ [f]"
      by (simp add: f_def Set_add_resolve)
    have pairs: "accepted_pairs U (Some it # its) = (f, item_id it) # accepted_pairs (U @ [f]) its"
      using False add by (simp add: f_def Let_def)
    have "foldl (\<lambda>st x. loop_body e indent x st)
        \<lparr>lines = map Some (ls @ [enum_line e indent f (item_id it)]) @ replicate (n - 1) None,
         lineIdx = length (ls @ [enum_line e indent f (item_id it)]), usedNames = Set_add U f\<rparr> its =
      \<lparr>lines = map Some ((ls @ [enum_line e indent f (item_id it)])
                @ map (pair_line e indent) (accepted_pairs (Set_add U f) its))
              @ replicate (n - 1 - length (accepted_pairs (Set_add U f) its)) None,
       lineIdx = length (ls @ [enum_line e indent f (item_id it)])
                 + length (accepted_pairs (Set_add U f) its),
       usedNames = Set_add U f @ map fst (accepted_pairs (Set_add U f) its)\<rparr>"
      using False n(2) by (intro "3.IH"(2)) (simp_all add: f_def)
    then show ?thesis
      unfolding foldl_Cons step pairs add by (simp add: pair_line_def)
  qed
qed

lemma run_loop_accepted:
  "run_loop e indent its =
   \<lparr>lines = map Some (map (pair_line e indent) (accepted_pairs [] its))
              @ replicate (length its - length (accepted_pairs [] its)) None,
    lineIdx = length (accepted_pairs [] its),
    usedNames = map fst (accepted_pairs [] its)\<rparr>"
  using foldl_loop_body [of its "length its" e indent "[]" "[]"]
  by (simp add: run_loop_def for_loop_foldl new_Array_def)

lemma enum_lines_accepted:
  "enum_lines e indent its = map Some (map (pair_line e indent) (accepted_pairs [] its))"
  by (simp add: enum_lines_def run_loop_accepted set_length_def)

lemma accepted_ids:
  "map snd (accepted_pairs U its) = map item_id (filter survives (records its))"
  by (induction U its rule: accepted_pairs.induct) (simp_all add: records_def survives_def Let_def)

lemma accepted_fresh:
  "set (map fst (accepted_pairs U its)) \<inter> set U = {} \<and> distinct (map fst (accepted_pairs U its))"
proof (induction U its rule: accepted_pairs.induct)
  case (3 U it its)
  show ?case
  proof (cases "sanitize (name it) \<in> INVALID_NAMES")
    case True
    with 3 show ?thesis by simp
  next
    case False
    define f where "f = resolve U (keyword_guard (sanitize (name it)))"
    have add: "Set_add U f = U @ [f]" by (simp add: f_def Set_add_resolve)
    have "set (map fst (accepted_pairs (Set_add U f) its)) \<inter> set (Set_add U f) = {} \<and>
          distinct (map fst (accepted_pairs (Set_add U f) its))"
      using False by (intro "3.IH"(2)) (simp_all add: f_def)
    moreover have "f \<notin> set U" by (simp add: f_def resolve_fresh)
    ultimately show ?thesis
      using False by (auto simp: Let_def f_def [symmetric] add)
  qed
qed simp_all

lemma sentinel_dropped:
  "sanitize (name it) \<in> INVALID_NAMES \<Longrightarrow> loop_body e indent (Some it) st = st"
  by (simp add: loop_body_def)

lemma loop_body_survivor:
  "survives it \<Longrightarrow> loop_body e indent (Some it) st =
     \<lparr>lines = array_set (lines st) (lineIdx st)
        (enum_line e indent (resolve (usedNames st) (keyword_guard (sanitize (name it)))) (item_id it)),
      lineIdx = lineIdx st + 1,
      usedNames = usedNames st @ [resolve (usedNames st) (keyword_guard (sanitize (name it)))]\<rparr>"
  by (simp add: survives_def loop_body_def Let_def Set_add_resolve)

section \<open>The text of the enumeration\<close>

lemma repeat_space:
  "repeat e (js '' '') (int w) =
     (if w \<le> max_string_length e then Inr (replicate w 0x20) else Inl RangeError)"
proof -
  have "concat (replicate w [0x20 :: code_unit]) = replicate w 0x20"
    by (induction w) simp_all
  then show ?thesis by (simp add: repeat_def js_def)
qed

lemma join_Some: "join (map Some xs) sep = join_strings sep xs"
  by (simp add: join_def slot_string_def comp_def)

lemma pair_line_text:
  "pair_line e indent =
     (\<lambda>(finalName, i). indent @ finalName @ js '' = '' @ Number_toString e i @ js '','')"
  by (rule ext) (simp add: pair_line_def enum_line_def case_prod_beta)

lemma enum_text_pairs:
  "enum_text e indent its =
     js ''enum eItems {\<newline>''
     @ join_strings (js ''\<newline>'')
         (map (\<lambda>(finalName, i). indent @ finalName @ js '' = '' @ Number_toString e i @ js '','')
            (accepted_pairs [] its))
     @ js ''\<newline>};\<newline>''"
  by (simp only: enum_text_def enum_lines_accepted join_Some pair_line_text)

lemma length_js: "length (js s) = length s"
  by (simp add: js_def)

section \<open>The limits of the engine\<close>

text \<open>
  The loop as the engine runs it raises a RangeError exactly when a line would be longer
  than a string may be or the set of used names is full, and computes what \<open>for_loop\<close>
  computes otherwise. The strings built on the way to a line (the sanitized name, the
  guarded name, the suffixed names tried) are no longer than the line.
\<close>

lemma digits_length_mono: "m \<le> n \<Longrightarrow> length (digits m) \<le> length (digits n)"
proof (induction n arbitrary: m rule: digits.induct)
  case (1 n)
  show ?case
  proof (cases "n < 10")
    case True
    with 1 show ?thesis by (simp add: digits.simps [of n] digits.simps [of m])
  next
    case False
    show ?thesis
    proof (cases "m < 10")
      case True
      with False show ?thesis by (simp add: digits.simps [of n] digits.simps [of m])
    next
      case m: False
      from "1.prems" have "m div 10 \<le> n div 10" by (rule div_le_mono)
      with False have "length (digits (m div 10)) \<le> length (digits (n div 10))"
        by (intro "1.IH") simp_all
      with False m show ?thesis by (simp add: digits.simps [of n] digits.simps [of m])
    qed
  qed
qed

lemma suffixed_length_mono: "j \<le> k \<Longrightarrow> length (suffixed s j) \<le> length (suffixed s k)"
  by (simp add: suffixed_def digits_length_mono)

lemma suffixed_length: "length s \<le> length (suffixed s k)"
  by (simp add: suffixed_def)

lemma resolve_length: "length c \<le> length (resolve U c)"
  by (cases "c \<in> set U") (auto simp: resolve_free suffixed_length dest: resolve_taken)

lemma keyword_guard_length: "length s \<le> length (keyword_guard s)"
  by (simp add: keyword_guard_def)

lemma enum_line_length: "length f \<le> length (enum_line e indent f i)"
  by (simp add: enum_line_def)

lemma while_checked:
  "while_usedNames_has_checked e U s f k =
     (if f \<in> set U then new_string e (while_usedNames_has U s f k) else Inr f)"
proof (induction e U s f k rule: while_usedNames_has_checked.induct)
  case (1 e U s f k)
  show ?case
  proof (cases "f \<in> set U")
    case False
    then show ?thesis
      by (subst while_usedNames_has_checked.simps) (simp add: Set_has_def)
  next
    case True
    then have taken: "Set_has U f" by (simp add: Set_has_def)
    show ?thesis
    proof (cases "length (suffixed s k) \<le> max_string_length e")
      case fits: True
      have "while_usedNames_has_checked e U s f k =
            while_usedNames_has_checked e U s (suffixed s k) (k + 1)"
        using taken fits by (subst while_usedNames_has_checked.simps) simp
      also have "\<dots> = (if suffixed s k \<in> set U
            then new_string e (while_usedNames_has U s (suffixed s k) (k + 1))
            else Inr (suffixed s k))"
        using taken fits by (rule "1.IH")
      also have "\<dots> = new_string e (while_usedNames_has U s (suffixed s k) (k + 1))"
        using fits by (simp add: while_free Set_has_def new_string_def)
      finally show ?thesis
        using True taken by (simp add: while_taken)
    next
      case long: False
      from while_first_free [OF True, of k s] obtain m where
        m: "k \<le> m" "while_usedNames_has U s f k = suffixed s m" by blast
      from m(1) have "length (suffixed s k) \<le> length (suffixed s m)"
        by (rule suffixed_length_mono)
      with long m(2) have "new_string e (while_usedNames_has U s f k) = Inl RangeError"
        by (simp add: new_string_def)
      moreover have "while_usedNames_has_checked e U s f k = Inl RangeError"
        using taken long by (subst while_usedNames_has_checked.simps) simp
      ultimately show ?thesis using True by simp
    qed
  qed
qed

lemma resolve_checked:
  "length (resolve U c) \<le> max_string_length e \<Longrightarrow>
   while_usedNames_has_checked e U c c 2 = Inr (resolve U c)"
  by (simp add: while_checked resolve_def new_string_def while_free Set_has_def)

lemma sanitize_checked_cases:
  "sanitize_checked e nm = Inr (sanitize nm) \<or>
   (sanitize_checked e nm = Inl RangeError \<and> max_string_length e < length (sanitize nm)
      \<and> sanitize nm \<notin> INVALID_NAMES)"
proof (cases "code_between
    (charCodeAt (toUpperCase (replace_SANITIZE_REGEX (trim nm) (js ''_''))) 0) 48 57")
  case False
  then show ?thesis by (simp add: sanitize_checked_def sanitize_def Let_def)
next
  case True
  then have s: "sanitize nm = js ''_'' @ toUpperCase (replace_SANITIZE_REGEX (trim nm) (js ''_''))"
    by (simp add: sanitize_def Let_def)
  from True have "toUpperCase (replace_SANITIZE_REGEX (trim nm) (js ''_'')) \<noteq> []"
    by (auto simp: charCodeAt_def code_between_def)
  then have "sanitize nm \<notin> INVALID_NAMES"
    unfolding s INVALID_NAMES_def by (auto simp: js_def)
  with True s show ?thesis
    by (simp add: sanitize_checked_def Let_def new_string_def)
qed

lemma sanitize_checked_fits:
  "length (sanitize nm) \<le> max_string_length e \<Longrightarrow> sanitize_checked e nm = Inr (sanitize nm)"
  using sanitize_checked_cases [of e nm] by auto

lemma sanitize_checked_sentinel:
  "sanitize nm \<in> INVALID_NAMES \<Longrightarrow> sanitize_checked e nm = Inr (sanitize nm)"
  using sanitize_checked_cases [of e nm] by auto

lemma keyword_guard_checked_cases:
  "keyword_guard_checked e s =
     (if length (keyword_guard s) \<le> max_string_length e \<or> s \<notin> RESERVED_KEYWORDS
      then Inr (keyword_guard s) else Inl RangeError)"
  by (simp add: keyword_guard_checked_def keyword_guard_def new_string_def)

lemma loop_body_checked_dropped:
  "\<not> survives it \<Longrightarrow> loop_body_checked e indent (Some it) st = Inr st"
  by (simp add: survives_def loop_body_checked_def sanitize_checked_sentinel)

lemma loop_body_checked_survivor:
  assumes "survives it"
  shows "loop_body_checked e indent (Some it) st =
     (if length (enum_line e indent (resolve (usedNames st) (keyword_guard (sanitize (name it))))
                   (item_id it)) \<le> max_string_length e
         \<and> length (usedNames st) < max_set_size e
      then Inr (loop_body e indent (Some it) st) else Inl RangeError)"
proof -
  define s where "s = sanitize (name it)"
  define g where "g = keyword_guard s"
  define f where "f = resolve (usedNames st) g"
  define l where "l = enum_line e indent f (item_id it)"
  have sv: "s \<notin> INVALID_NAMES"
    using assms by (simp add: survives_def s_def)
  have len: "length s \<le> length g" "length g \<le> length f" "length f \<le> length l"
    by (simp_all add: g_def f_def l_def keyword_guard_length resolve_length enum_line_length)
  have fresh: "f \<notin> set (usedNames st)"
    by (simp add: f_def resolve_fresh)
  have pure: "loop_body e indent (Some it) st =
      \<lparr>lines = array_set (lines st) (lineIdx st) l, lineIdx = lineIdx st + 1,
       usedNames = usedNames st @ [f]\<rparr>"
    using assms by (simp add: loop_body_survivor l_def f_def g_def s_def)
  show ?thesis
  proof (cases "length l \<le> max_string_length e")
    case True
    with len have fits: "length s \<le> max_string_length e" "length g \<le> max_string_length e"
      "length f \<le> max_string_length e" by simp_all
    have 1: "sanitize_checked e (name it) = Inr s"
      using fits(1) unfolding s_def by (rule sanitize_checked_fits)
    have 2: "keyword_guard_checked e s = Inr g"
      using fits(2) by (simp add: keyword_guard_checked_cases g_def)
    have 3: "while_usedNames_has_checked e (usedNames st) g g 2 = Inr f"
      using fits(3) unfolding f_def by (rule resolve_checked)
    have 4: "Set_add_checked e (usedNames st) f =
        (if length (usedNames st) < max_set_size e then Inr (usedNames st @ [f]) else Inl RangeError)"
      using fresh by (simp add: Set_add_checked_def)
    have 5: "new_string e l = Inr l"
      using True by (simp add: new_string_def)
    have "loop_body_checked e indent (Some it) st =
        (if length (usedNames st) < max_set_size e
         then Inr \<lparr>lines = array_set (lines st) (lineIdx st) l, lineIdx = lineIdx st + 1,
                   usedNames = usedNames st @ [f]\<rparr>
         else Inl RangeError)"
      using sv by (simp add: loop_body_checked_def 1 2 3 4 5 l_def [symmetric])
    with True show ?thesis
      by (simp add: pure l_def f_def g_def s_def)
  next
    case False
    have "loop_body_checked e indent (Some it) st = Inl RangeError"
    proof (cases "sanitize_checked e (name it) = Inr s")
      case s1: False
      with sanitize_checked_cases [of e "name it"]
      have "sanitize_checked e (name it) = Inl RangeError" by (simp add: s_def)
      then show ?thesis by (simp add: loop_body_checked_def)
    next
      case s1: True
      show ?thesis
      proof (cases "keyword_guard_checked e s = Inr g")
        case g1: False
        then have "keyword_guard_checked e s = Inl RangeError"
          by (simp add: keyword_guard_checked_cases g_def split: if_splits)
        with sv s1 show ?thesis by (simp add: loop_body_checked_def)
      next
        case g1: True
        show ?thesis
        proof (cases "while_usedNames_has_checked e (usedNames st) g g 2 = Inr f")
          case f1: True
          have 5: "new_string e (enum_line e indent f (item_id it)) = Inl RangeError"
            using False by (simp add: new_string_def l_def)
          from sv s1 g1 f1 5 show ?thesis
            by (simp add: loop_body_checked_def Set_add_checked_def fresh)
        next
          case f1: False
          then have "while_usedNames_has_checked e (usedNames st) g g 2 = Inl RangeError"
            by (simp add: while_checked new_string_def f_def resolve_def while_free Set_has_def
                  split: if_splits)
          with sv s1 g1 show ?thesis by (simp add: loop_body_checked_def)
        qed
      qed
    qed
    with False show ?thesis by (simp add: l_def f_def g_def s_def)
  qed
qed

lemma foldl_Inl:
  "foldl (\<lambda>r x. case r of Inl err \<Rightarrow> Inl err | Inr st \<Rightarrow> F x st) (Inl err) xs = Inl err"
  by (induction xs) simp_all

lemma for_loop_checked_foldl:
  "i \<le> length its \<Longrightarrow>
   for_loop_checked e indent its (length its) i st =
     foldl (\<lambda>r x. case r of Inl err \<Rightarrow> Inl err | Inr st \<Rightarrow> loop_body_checked e indent x st)
       (Inr st) (drop i its)"
proof (induction e indent its "length its" i st rule: for_loop_checked.induct)
  case (1 e indent its i st)
  show ?case
  proof (cases "i < length its")
    case True
    then have d: "drop i its = its ! i # drop (i + 1) its"
      by (simp add: Cons_nth_drop_Suc)
    show ?thesis
    proof (cases "loop_body_checked e indent (its ! i) st")
      case (Inl err)
      with True show ?thesis
        by (subst for_loop_checked.simps) (simp add: d foldl_Inl)
    next
      case (Inr st')
      with True 1 show ?thesis
        by (subst for_loop_checked.simps) (simp add: d)
    qed
  next
    case False
    with 1 show ?thesis by (subst for_loop_checked.simps) simp
  qed
qed

lemma foldl_loop_body_checked:
  "length its \<le> n \<Longrightarrow>
   foldl (\<lambda>r x. case r of Inl err \<Rightarrow> Inl err | Inr st \<Rightarrow> loop_body_checked e indent x st)
     (Inr \<lparr>lines = map Some ls @ replicate n None, lineIdx = length ls, usedNames = U\<rparr>) its =
   (if list_all (\<lambda>p. length (pair_line e indent p) \<le> max_string_length e) (accepted_pairs U its)
       \<and> (accepted_pairs U its = []
            \<or> length U + length (accepted_pairs U its) \<le> max_set_size e)
    then Inr (foldl (\<lambda>st x. loop_body e indent x st)
                \<lparr>lines = map Some ls @ replicate n None, lineIdx = length ls, usedNames = U\<rparr> its)
    else Inl RangeError)"
proof (induction U its arbitrary: ls n rule: accepted_pairs.induct)
  case (1 U)
  show ?case by simp
next
  case (2 U its)
  then show ?case by (simp add: loop_body_def loop_body_checked_def)
next
  case (3 U it its)
  show ?case
  proof (cases "sanitize (name it) \<in> INVALID_NAMES")
    case True
    then have "loop_body_checked e indent (Some it) st = Inr st" for st
      by (simp add: loop_body_checked_dropped survives_def)
    moreover have "loop_body e indent (Some it) st = st" for st
      using True by (rule sentinel_dropped)
    ultimately show ?thesis
      using 3 True by simp
  next
    case False
    define f where "f = resolve U (keyword_guard (sanitize (name it)))"
    define l where "l = enum_line e indent f (item_id it)"
    let ?st = "\<lparr>lines = map Some ls @ replicate n None, lineIdx = length ls, usedNames = U\<rparr>"
    let ?st' = "\<lparr>lines = map Some (ls @ [l]) @ replicate (n - 1) None,
                 lineIdx = length (ls @ [l]), usedNames = Set_add U f\<rparr>"
    from False have sv: "survives it" by (simp add: survives_def)
    from "3.prems" have n: "0 < n" "length its \<le> n - 1" by simp_all
    have step: "loop_body e indent (Some it) ?st = ?st'"
      using False n by (simp add: loop_body_def f_def l_def array_set_fill Let_def)
    have add: "Set_add U f = U @ [f]"
      by (simp add: f_def Set_add_resolve)
    have pairs: "accepted_pairs U (Some it # its) = (f, item_id it) # accepted_pairs (Set_add U f) its"
      using False by (simp add: f_def Let_def)
    have chk: "loop_body_checked e indent (Some it) ?st =
        (if length l \<le> max_string_length e \<and> length U < max_set_size e
         then Inr ?st' else Inl RangeError)"
      using loop_body_checked_survivor [OF sv, of e indent ?st]
      unfolding step by (simp add: f_def l_def)
    have IH: "foldl (\<lambda>r x. case r of Inl err \<Rightarrow> Inl err
                             | Inr st \<Rightarrow> loop_body_checked e indent x st) (Inr ?st') its =
      (if list_all (\<lambda>p. length (pair_line e indent p) \<le> max_string_length e)
            (accepted_pairs (Set_add U f) its)
          \<and> (accepted_pairs (Set_add U f) its = []
               \<or> length (Set_add U f) + length (accepted_pairs (Set_add U f) its) \<le> max_set_size e)
       then Inr (foldl (\<lambda>st x. loop_body e indent x st) ?st' its)
       else Inl RangeError)"
      using False n(2) by (intro "3.IH"(2)) (simp_all add: f_def)
    show ?thesis
    proof (cases "length l \<le> max_string_length e \<and> length U < max_set_size e")
      case True
      then have "foldl (\<lambda>r x. case r of Inl err \<Rightarrow> Inl err
                             | Inr st \<Rightarrow> loop_body_checked e indent x st) (Inr ?st) (Some it # its)
          = foldl (\<lambda>r x. case r of Inl err \<Rightarrow> Inl err
                             | Inr st \<Rightarrow> loop_body_checked e indent x st) (Inr ?st') its"
        by (simp add: chk)
      moreover have "foldl (\<lambda>st x. loop_body e indent x st) ?st (Some it # its)
          = foldl (\<lambda>st x. loop_body e indent x st) ?st' its"
        by (simp add: step)
      moreover have "(list_all (\<lambda>p. length (pair_line e indent p) \<le> max_string_length e)
            (accepted_pairs (Set_add U f) its)
          \<and> (accepted_pairs (Set_add U f) its = []
               \<or> length (Set_add U f) + length (accepted_pairs (Set_add U f) its) \<le> max_set_size e))
        = (list_all (\<lambda>p. length (pair_line e indent p) \<le> max_string_length e)
            (accepted_pairs U (Some it # its))
          \<and> (accepted_pairs U (Some it # its) = []
               \<or> length U + length (accepted_pairs U (Some it # its)) \<le> max_set_size e))"
        using True unfolding pairs by (auto simp: add pair_line_def l_def)
      ultimately show ?thesis
        by (simp only: IH)
    next
      case no: False
      have "loop_body_checked e indent (Some it) ?st = Inl RangeError"
        unfolding chk using no by (rule if_not_P)
      then have "foldl (\<lambda>r x. case r of Inl err \<Rightarrow> Inl err
                             | Inr st \<Rightarrow> loop_body_checked e indent x st) (Inr ?st) (Some it # its)
          = Inl RangeError"
        by (simp add: foldl_Inl)
      moreover have "\<not> (list_all (\<lambda>p. length (pair_line e indent p) \<le> max_string_length e)
            (accepted_pairs U (Some it # its))
          \<and> (accepted_pairs U (Some it # its) = []
               \<or> length U + length (accepted_pairs U (Some it # its)) \<le> max_set_size e))"
        using no unfolding pairs by (auto simp: pair_line_def l_def)
      ultimately show ?thesis by (simp only: if_False)
    qed
  qed
qed

lemma for_loop_checked_run:
  "for_loop_checked e indent its (length its) 0
     \<lparr>lines = new_Array (length its), lineIdx = 0, usedNames = []\<rparr> =
   (if list_all (\<lambda>p. length (pair_line e indent p) \<le> max_string_length e) (accepted_pairs [] its)
       \<and> length (accepted_pairs [] its) \<le> max_set_size e
    then Inr (run_loop e indent its) else Inl RangeError)"
proof -
  have "(accepted_pairs [] its = [] \<or> length (accepted_pairs [] its) \<le> max_set_size e)
      = (length (accepted_pairs [] its) \<le> max_set_size e)"
    by auto
  then show ?thesis
    using foldl_loop_body_checked [of its "length its" e indent "[]" "[]"]
    by (simp add: for_loop_checked_foldl run_loop_def for_loop_foldl new_Array_def)
qed

lemma join_strings_length: "x \<in> set xs \<Longrightarrow> length x \<le> length (join_strings sep xs)"
  by (induction sep xs rule: join_strings.induct) auto

lemma lines_fit_text:
  assumes "length (enum_text e indent its) \<le> max_string_length e"
  shows "list_all (\<lambda>p. length (pair_line e indent p) \<le> max_string_length e) (accepted_pairs [] its)"
    and "length (join (enum_lines e indent its) (js ''\<newline>'')) \<le> max_string_length e"
proof -
  from assms show j: "length (join (enum_lines e indent its) (js ''\<newline>'')) \<le> max_string_length e"
    by (simp add: enum_text_def)
  have "length (pair_line e indent p) \<le> max_string_length e" if "p \<in> set (accepted_pairs [] its)" for p
  proof -
    from that have "pair_line e indent p \<in> set (map (pair_line e indent) (accepted_pairs [] its))"
      by simp
    then have "length (pair_line e indent p)
        \<le> length (join_strings (js ''\<newline>'') (map (pair_line e indent) (accepted_pairs [] its)))"
      by (rule join_strings_length)
    with j show ?thesis by (simp only: enum_lines_accepted join_Some)
  qed
  then show "list_all (\<lambda>p. length (pair_line e indent p) \<le> max_string_length e)
      (accepted_pairs [] its)"
    by (simp add: list_all_iff)
qed

text \<open>
  The method in one equation: with a catalog, \<open>buildEnum\<close> returns the text of the
  enumeration when the width is not negative and no limit is reached, and raises a
  RangeError otherwise.
\<close>

lemma buildEnum_limits:
  "buildEnum e \<lparr>itemsData = Some d\<rparr> tabSize =
     (if 0 \<le> tabSize \<and> within_limits e (nat tabSize) (items d)
      then Inr (enum_text e (replicate (nat tabSize) 0x20) (items d)) else Inl RangeError)"
proof (cases "0 \<le> tabSize")
  case False
  then show ?thesis by (simp add: buildEnum_def repeat_def)
next
  case True
  then obtain w where w: "tabSize = int w" by (auto dest: zero_le_imp_eq_int)
  show ?thesis
  proof (cases "w \<le> max_string_length e")
    case False
    then show ?thesis by (simp add: w buildEnum_def repeat_space within_limits_def)
  next
    case fits: True
    show ?thesis
    proof (cases "within_limits e w (items d)")
      case True
      then have t: "length (enum_text e (replicate w 0x20) (items d)) \<le> max_string_length e"
        and n: "length (accepted_pairs [] (items d)) \<le> max_set_size e"
        by (simp_all add: within_limits_def)
      have "for_loop_checked e (replicate w 0x20) (items d) (length (items d)) 0
          \<lparr>lines = new_Array (length (items d)), lineIdx = 0, usedNames = []\<rparr>
          = Inr (run_loop e (replicate w 0x20) (items d))"
        using lines_fit_text(1) [OF t] n by (simp add: for_loop_checked_run)
      moreover have "join (set_length (lines (run_loop e (replicate w 0x20) (items d)))
            (lineIdx (run_loop e (replicate w 0x20) (items d)))) (js ''\<newline>'')
          = join (enum_lines e (replicate w 0x20) (items d)) (js ''\<newline>'')"
        by (simp add: enum_lines_def Let_def)
      ultimately show ?thesis
        using True fits lines_fit_text(2) [OF t] t
        by (simp add: w buildEnum_def repeat_space new_string_def enum_text_def)
    next
      case False
      have "buildEnum e \<lparr>itemsData = Some d\<rparr> (int w) = Inl RangeError"
      proof (cases "list_all (\<lambda>p. length (pair_line e (replicate w 0x20) p) \<le> max_string_length e)
            (accepted_pairs [] (items d))
          \<and> length (accepted_pairs [] (items d)) \<le> max_set_size e")
        case no: False
        have "for_loop_checked e (replicate w 0x20) (items d) (length (items d)) 0
            \<lparr>lines = new_Array (length (items d)), lineIdx = 0, usedNames = []\<rparr> = Inl RangeError"
          unfolding for_loop_checked_run using no by (rule if_not_P)
        then show ?thesis
          using fits by (simp add: buildEnum_def repeat_space)
      next
        case yes: True
        with False fits
        have long: "\<not> length (enum_text e (replicate w 0x20) (items d)) \<le> max_string_length e"
          by (simp add: within_limits_def)
        have "join (set_length (lines (run_loop e (replicate w 0x20) (items d)))
            (lineIdx (run_loop e (replicate w 0x20) (items d)))) (js ''\<newline>'')
          = join (enum_lines e (replicate w 0x20) (items d)) (js ''\<newline>'')"
          by (simp add: enum_lines_def Let_def)
        with yes fits long show ?thesis
          by (simp add: buildEnum_def repeat_space for_loop_checked_run new_string_def enum_text_def)
      qed
      with False show ?thesis by (simp add: w)
    qed
  qed
qed

section \<open>The characters of an identifier\<close>

lemma replace_identifier_units:
  "list_all identifier_unit r \<Longrightarrow> list_all identifier_unit (replace_SANITIZE_REGEX s r)"
  by (induction s r rule: replace_SANITIZE_REGEX.induct) (simp_all add: regex_class_def)

lemma upper_unit_enum: "identifier_unit c \<Longrightarrow> enum_unit (upper_unit c)"
  unfolding identifier_unit_def enum_unit_def upper_unit_def
  by (auto simp: word_le_nat_alt unat_sub)

lemma underscore_unit: "list_all identifier_unit (js ''_'')"
  by (simp add: js_def identifier_unit_def)

lemma toUpperCase_units: "list_all identifier_unit s \<Longrightarrow> list_all enum_unit (toUpperCase s)"
  by (induction s) (simp_all add: toUpperCase_def upper_unit_enum)

lemma sanitize_units: "list_all enum_unit (sanitize nm)"
  by (simp add: sanitize_def Let_def toUpperCase_units replace_identifier_units underscore_unit)
     (simp add: js_def enum_unit_def)

lemma digits_units: "list_all enum_unit (digits n)"
proof (induction n rule: digits.induct)
  case (1 n)
  have d: "enum_unit (0x30 + of_nat k)" if "k < 10" for k
    using that unat_digit [of k] by (simp add: enum_unit_def word_le_nat_alt)
  show ?case
  proof (cases "n < 10")
    case True
    then show ?thesis by (simp add: digits.simps [of n] d)
  next
    case False
    with 1 show ?thesis by (simp add: digits.simps [of n] d)
  qed
qed

lemma keyword_guard_units: "list_all enum_unit s \<Longrightarrow> list_all enum_unit (keyword_guard s)"
  by (simp add: keyword_guard_def js_def enum_unit_def)

lemma suffixed_units: "list_all enum_unit s \<Longrightarrow> list_all enum_unit (suffixed s k)"
  by (simp add: suffixed_def digits_units) (simp add: js_def enum_unit_def)

lemma resolve_units: "list_all enum_unit c \<Longrightarrow> list_all enum_unit (resolve U c)"
  by (cases "c \<in> set U") (auto simp: resolve_free suffixed_units dest: resolve_taken)

lemma accepted_units: "\<forall>p \<in> set (accepted_pairs U its). list_all enum_unit (fst p)"
  by (induction U its rule: accepted_pairs.induct)
     (simp_all add: Let_def resolve_units keyword_guard_units sanitize_units)

lemma line_identifier_enum_line:
  "list_all enum_unit f \<Longrightarrow> line_identifier (length indent) (enum_line e indent f i) = f"
proof -
  assume "list_all enum_unit f"
  then have "\<forall>c \<in> set f. c \<noteq> 0x20"
    by (auto simp: list_all_iff enum_unit_def)
  then show ?thesis
    by (simp add: line_identifier_def enum_line_def js_def)
qed

lemma lines_identifiers:
  "map (line_identifier (length indent)) (map slot_string (enum_lines e indent its))
   = map fst (accepted_pairs [] its)"
  using accepted_units [of "[]" its]
  by (simp add: enum_lines_accepted slot_string_def pair_line_def line_identifier_enum_line)

text \<open>
  The sanitizer never returns a text that starts with a digit, so it never returns
  \<open>0\<close>: the sentinel \<open>0\<close> of \<open>INVALID_NAMES\<close> matches no record.
\<close>

lemma sanitize_no_leading_digit:
  "\<not> code_between (charCodeAt (sanitize nm) 0) 48 57"
  by (simp add: sanitize_def Let_def js_def charCodeAt_def code_between_def)

lemma sanitize_not_zero: "sanitize nm \<noteq> js ''0''"
proof
  assume "sanitize nm = js ''0''"
  with sanitize_no_leading_digit [of nm] show False
    by (simp add: js_def charCodeAt_def code_between_def)
qed

section \<open>The sanitizer and the runs of a name\<close>






















section \<open>A record inside a catalog\<close>











section \<open>A keyword between whitespace\<close>




lemma replace_identifier:
  "list_all identifier_unit s \<Longrightarrow> replace_SANITIZE_REGEX s r = s"
  by (induction s) (simp_all add: regex_class_def)


section \<open>The names 0, Potion! and Potion?\<close>

text \<open>
  Line 89 turns the name \<open>0\<close> into \<open>0\<close>, a member of \<open>INVALID_NAMES\<close>; lines 92
  to 94 make it \<open>_0\<close> before line 96 tests it, and the record has a line. The names
  \<open>Potion!\<close> and \<open>Potion?\<close> keep an underscore for their last character.
\<close>

lemma zero_name_line:
  "toUpperCase (replace_SANITIZE_REGEX (trim (js ''0'')) (js ''_'')) = js ''0''
   \<and> js ''0'' \<in> INVALID_NAMES
   \<and> sanitize (js ''0'') = js ''_0''
   \<and> buildEnum (node_engine f) \<lparr>itemsData = Some \<lparr>version = 1, item_count = 1,
         items = [Some \<lparr>item_id = 2, name = js ''0''\<rparr>]\<rparr>\<rparr> 4
       = Inr (js ''enum eItems {\<newline>    _0 = 2,\<newline>};\<newline>'')"
proof -
  have p: "accepted_pairs [] [Some \<lparr>item_id = 2, name = js ''0''\<rparr>] = [(js ''_0'', 2)]"
    by (simp add: sanitize_examples js_eval)
  have t: "enum_text (node_engine f) (replicate 4 0x20) [Some \<lparr>item_id = 2, name = js ''0''\<rparr>]
      = js ''enum eItems {\<newline>    _0 = 2,\<newline>};\<newline>''"
    unfolding enum_text_pairs p by (simp add: text_eval)
  have w: "within_limits (node_engine f) 4 [Some \<lparr>item_id = 2, name = js ''0''\<rparr>]"
    unfolding within_limits_def t p by (simp add: node_engine_def length_js)
  have "buildEnum (node_engine f) \<lparr>itemsData = Some \<lparr>version = 1, item_count = 1,
         items = [Some \<lparr>item_id = 2, name = js ''0''\<rparr>]\<rparr>\<rparr> 4
       = Inr (js ''enum eItems {\<newline>    _0 = 2,\<newline>};\<newline>'')"
    using buildEnum_limits [of "node_engine f" "\<lparr>version = 1, item_count = 1,
         items = [Some \<lparr>item_id = 2, name = js ''0''\<rparr>]\<rparr>" 4]
    by (simp add: w t)
  moreover have "toUpperCase (replace_SANITIZE_REGEX (trim (js ''0'')) (js ''_'')) = js ''0''"
    by (simp add: string_eval)
  ultimately show ?thesis
    by (simp add: invalid_js sanitize_examples)
qed

lemma potion_punctuation:
  "accepted_pairs [] [Some \<lparr>item_id = 1, name = js ''Potion!''\<rparr>,
                      Some \<lparr>item_id = 2, name = js ''Potion?''\<rparr>]
   = [(js ''POTION_'', 1), (js ''POTION__2'', 2)]"
  by (simp add: sanitize_examples js_eval number_2)

section \<open>The texts of the example catalogs\<close>

lemma example_text:
  "enum_text e (replicate 4 0x20) (items example_catalog) =
     js ''enum eItems {\<newline>    HEALTH_POTION = 1,\<newline>    _0 = 2,\<newline>    CLASS_ = 3,\<newline>    HEALTH_POTION_2 = 4,\<newline>};\<newline>''"
  unfolding enum_text_pairs example_pairs by (simp add: text_eval)

lemma suffix_text:
  "enum_text e (replicate 4 0x20) (items suffix_catalog) =
     js ''enum eItems {\<newline>    A = 1,\<newline>    A_2 = 2,\<newline>    A_2_2 = 3,\<newline>};\<newline>''"
  unfolding enum_text_pairs suffix_pairs by (simp add: text_eval)

lemma potion_text:
  "enum_text e (replicate 2 0x20) (items potion_catalog) =
     js ''enum eItems {\<newline>  POTION = 7,\<newline>  POTION_2 = -3,\<newline>};\<newline>''"
  "enum_text e (replicate 0 0x20) (items potion_catalog) =
     js ''enum eItems {\<newline>POTION = 7,\<newline>POTION_2 = -3,\<newline>};\<newline>''"
  "enum_text e [] (items potion_catalog) =
     js ''enum eItems {\<newline>POTION = 7,\<newline>POTION_2 = -3,\<newline>};\<newline>''"
  unfolding enum_text_pairs potion_pairs by (simp_all add: text_eval)

lemma odd_text:
  "enum_text e (replicate 4 0x20) (items odd_names_catalog) =
     js ''enum eItems {\<newline>    _ = 3,\<newline>};\<newline>''"
  unfolding enum_text_pairs odd_pairs by (simp add: text_eval)

lemma sentinel_pairs: "accepted_pairs [] (items sentinel_catalog) = [(js ''POTION'', 7)]"
  by (simp add: sentinel_catalog_def sanitize_examples js_eval)

lemma sentinel_text:
  "enum_text e (replicate 4 0x20) (items sentinel_catalog) =
     js ''enum eItems {\<newline>    POTION = 7,\<newline>};\<newline>''"
  unfolding enum_text_pairs sentinel_pairs by (simp add: text_eval)

lemma node_limits:
  "within_limits (node_engine f) 4 (items example_catalog)"
  "within_limits (node_engine f) 4 (items suffix_catalog)"
  "within_limits (node_engine f) 2 (items potion_catalog)"
  "within_limits (node_engine f) 0 (items potion_catalog)"
  "within_limits (node_engine f) 4 (items odd_names_catalog)"
  "within_limits (node_engine f) 4 (items sentinel_catalog)"
  unfolding within_limits_def example_text suffix_text potion_text odd_text sentinel_text
    example_pairs suffix_pairs potion_pairs odd_pairs sentinel_pairs
  by (simp_all add: node_engine_def length_js)

section \<open>A catalog with more names than a set holds\<close>

text \<open>
  Every record of \<open>crowded_catalog n\<close> survives, so the loop adds \<open>n\<close> names to
  the set of used names.
\<close>

lemma enum_unit_identifier: "enum_unit c \<Longrightarrow> identifier_unit c \<and> \<not> isWhiteSpace c \<and> upper_unit c = c"
  unfolding enum_unit_def identifier_unit_def isWhiteSpace_def upper_unit_def
  by (auto simp: word_le_nat_alt)

lemma sanitize_enum_units:
  assumes "list_all enum_unit s" "\<not> code_between (charCodeAt s 0) 48 57"
  shows "sanitize s = s"
proof -
  from assms(1) have ws: "\<forall>c \<in> set s. \<not> isWhiteSpace c" and ids: "list_all identifier_unit s"
    and up: "\<forall>c \<in> set s. upper_unit c = c"
    by (auto simp: list_all_iff dest: enum_unit_identifier)
  have d: "dropWhile isWhiteSpace xs = xs" if "\<forall>c \<in> set xs. \<not> isWhiteSpace c" for xs
    using that by (cases xs) simp_all
  have "trim s = s"
    using ws by (simp add: trim_def d)
  moreover have "replace_SANITIZE_REGEX s (js ''_'') = s"
    using ids by (rule replace_identifier)
  moreover have "toUpperCase s = s"
    using up by (simp add: toUpperCase_def map_idI)
  ultimately show ?thesis
    using assms(2) by (simp add: sanitize_def Let_def)
qed

lemma crowded_survives: "survives \<lparr>item_id = i, name = js ''A'' @ digits k\<rparr>"
proof -
  have "list_all enum_unit (js ''A'' @ digits k)"
    by (simp add: digits_units) (simp add: js_def enum_unit_def)
  moreover have "\<not> code_between (charCodeAt (js ''A'' @ digits k) 0) 48 57"
    by (simp add: js_def charCodeAt_def code_between_def)
  ultimately have "sanitize (js ''A'' @ digits k) = js ''A'' @ digits k"
    by (rule sanitize_enum_units)
  then show ?thesis
    by (simp add: survives_def INVALID_NAMES_def) (simp add: js_def)
qed

lemma records_map_Some: "records (map (\<lambda>k. Some (g k)) ks) = map g ks"
  by (induction ks) (simp_all add: records_def)

lemma crowded_pairs: "length (accepted_pairs [] (items (crowded_catalog n))) = n"
proof -
  have "length (accepted_pairs [] (items (crowded_catalog n)))
      = length (map snd (accepted_pairs [] (items (crowded_catalog n))))"
    by simp
  also have "\<dots> = length (filter survives (records (items (crowded_catalog n))))"
    by (simp only: accepted_ids length_map)
  also have "\<dots> = n"
    by (simp add: crowded_catalog_def records_map_Some crowded_survives)
  finally show ?thesis .
qed

section \<open>The claims\<close>

text \<open>
  C1. The specification gives, for the catalog of the records (1, Health Potion), (2, 0),
  (3, class) and (4, Health-Potion) and the default indent, a text of three lines in which
  the record with id 2 has no line. The generator returns another text: the name \<open>0\<close>
  becomes \<open>_0\<close> on lines 92 to 94, before line 96 looks it up in \<open>INVALID_NAMES\<close>,
  so the record is emitted as \<open>_0 = 2\<close>. It returns that text of four lines and 93
  code units on every engine that allows a set of four names and a string of that
  length, as Node.js does, and raises a RangeError on any other; on no engine does it
  return the text of the specification.
\<close>

theorem end_to_end_example:
  "buildEnum_default e \<lparr>itemsData = Some example_catalog\<rparr> =
     (if 4 \<le> max_set_size e \<and> 93 \<le> max_string_length e
      then Inr (js ''enum eItems {\<newline>    HEALTH_POTION = 1,\<newline>    _0 = 2,\<newline>    CLASS_ = 3,\<newline>    HEALTH_POTION_2 = 4,\<newline>};\<newline>'')
      else Inl RangeError)
   \<and> buildEnum_default (node_engine f) \<lparr>itemsData = Some example_catalog\<rparr> =
     Inr (js ''enum eItems {\<newline>    HEALTH_POTION = 1,\<newline>    _0 = 2,\<newline>    CLASS_ = 3,\<newline>    HEALTH_POTION_2 = 4,\<newline>};\<newline>'')
   \<and> buildEnum_default e \<lparr>itemsData = Some example_catalog\<rparr> \<noteq>
     Inr (js ''enum eItems {\<newline>    HEALTH_POTION = 1,\<newline>    CLASS_ = 3,\<newline>    HEALTH_POTION_2 = 4,\<newline>};\<newline>'')"
proof -
  have w: "within_limits e 4 (items example_catalog)
      = (4 \<le> max_set_size e \<and> 93 \<le> max_string_length e)" for e
    unfolding within_limits_def example_text example_pairs by (auto simp: length_js)
  have b: "buildEnum_default e \<lparr>itemsData = Some example_catalog\<rparr> =
     (if 4 \<le> max_set_size e \<and> 93 \<le> max_string_length e
      then Inr (js ''enum eItems {\<newline>    HEALTH_POTION = 1,\<newline>    _0 = 2,\<newline>    CLASS_ = 3,\<newline>    HEALTH_POTION_2 = 4,\<newline>};\<newline>'')
      else Inl RangeError)" for e
    using buildEnum_limits [of e example_catalog 4]
    by (simp add: buildEnum_default_def w example_text)
  have n: "buildEnum_default (node_engine f) \<lparr>itemsData = Some example_catalog\<rparr> =
     Inr (js ''enum eItems {\<newline>    HEALTH_POTION = 1,\<newline>    _0 = 2,\<newline>    CLASS_ = 3,\<newline>    HEALTH_POTION_2 = 4,\<newline>};\<newline>'')"
    unfolding b by (simp add: node_engine_def)
  have d: "buildEnum_default e \<lparr>itemsData = Some example_catalog\<rparr> \<noteq>
     Inr (js ''enum eItems {\<newline>    HEALTH_POTION = 1,\<newline>    CLASS_ = 3,\<newline>    HEALTH_POTION_2 = 4,\<newline>};\<newline>'')"
    unfolding b by (simp add: js_eq_iff)
  from b n d show ?thesis by (simp only: simp_thms)
qed



text \<open>
  C3. For every catalog and every indent, the identifiers of the lines of the output are
  pairwise distinct. The identifier of a line is read back from its text; the identifiers
  of the lines are the names the loop resolved, in order. The lines are those of the
  text \<open>buildEnum\<close> returns whenever it returns one.
\<close>

theorem identifiers_distinct:
  "distinct (map (line_identifier (length indent)) (map slot_string (enum_lines e indent its)))
   \<and> map (line_identifier (length indent)) (map slot_string (enum_lines e indent its))
       = map fst (accepted_pairs [] its)
   \<and> buildEnum e \<lparr>itemsData = Some d\<rparr> tabSize =
       (if 0 \<le> tabSize \<and> within_limits e (nat tabSize) (items d)
        then Inr (js ''enum eItems {\<newline>''
                  @ join (enum_lines e (replicate (nat tabSize) 0x20) (items d)) (js ''\<newline>'')
                  @ js ''\<newline>};\<newline>'')
        else Inl RangeError)"
proof -
  have names: "map (line_identifier (length indent)) (map slot_string (enum_lines e indent its))
      = map fst (accepted_pairs [] its)"
    by (rule lines_identifiers)
  have "distinct (map fst (accepted_pairs [] its))"
    using accepted_fresh [of "[]" its] by simp
  with names have "distinct (map (line_identifier (length indent))
      (map slot_string (enum_lines e indent its)))"
    by (simp only:)
  moreover have "buildEnum e \<lparr>itemsData = Some d\<rparr> tabSize =
       (if 0 \<le> tabSize \<and> within_limits e (nat tabSize) (items d)
        then Inr (js ''enum eItems {\<newline>''
                  @ join (enum_lines e (replicate (nat tabSize) 0x20) (items d)) (js ''\<newline>'')
                  @ js ''\<newline>};\<newline>'')
        else Inl RangeError)"
    by (simp only: buildEnum_limits enum_text_def)
  ultimately show ?thesis
    using names by (simp only: simp_thms)
qed







text \<open>
  C7, as amended. For every catalog and every non-negative indent width \<open>w\<close> (4 when the
  argument is left out), \<open>buildEnum\<close> returns a text when no limit of the engine is
  reached, and raises a RangeError when one is: when \<open>w\<close> or the length of the text
  is greater than the greatest length of a string, or the lines are more than a set
  holds. The text is \<open>enum eItems {\<close> and a newline, then one line per surviving
  record in catalog order, each made of \<open>w\<close> spaces, the resolved identifier,
  \<open> = \<close>, the id of the record as the engine prints it and a comma, the lines joined by
  newlines, then a newline, \<open>};\<close> and a newline. An id that is a safe integer is printed
  as its decimal digits, with a minus sign when negative; the digits read back as the
  number. The ids of the lines are the ids of the surviving records, in the order of the
  catalog. Width 0 gives no leading space.
\<close>

theorem buildEnum_text:
  "buildEnum e \<lparr>itemsData = Some d\<rparr> (int w) =
     (if within_limits e w (items d)
      then Inr (js ''enum eItems {\<newline>''
                @ join_strings (js ''\<newline>'')
                    (map (\<lambda>(finalName, i).
                            replicate w 0x20 @ finalName @ js '' = '' @ Number_toString e i @ js '','')
                       (accepted_pairs [] (items d)))
                @ js ''\<newline>};\<newline>'')
      else Inl RangeError)
   \<and> (safe_integer i \<longrightarrow>
        Number_toString e i = (if i < 0 then js ''-'' @ digits (nat (- i)) else digits (nat i)))
   \<and> digits_value (digits n) = n
   \<and> map snd (accepted_pairs [] (items d)) = map item_id (filter survives (records (items d)))
   \<and> buildEnum_default e this = buildEnum e this (int 4)"
proof (intro conjI impI)
  show "buildEnum e \<lparr>itemsData = Some d\<rparr> (int w) =
     (if within_limits e w (items d)
      then Inr (js ''enum eItems {\<newline>''
                @ join_strings (js ''\<newline>'')
                    (map (\<lambda>(finalName, i).
                            replicate w 0x20 @ finalName @ js '' = '' @ Number_toString e i @ js '','')
                       (accepted_pairs [] (items d)))
                @ js ''\<newline>};\<newline>'')
      else Inl RangeError)"
    unfolding enum_text_pairs [symmetric] by (simp add: buildEnum_limits)
  show "Number_toString e i = (if i < 0 then js ''-'' @ digits (nat (- i)) else digits (nat i))"
    if "safe_integer i"
    using that by (simp add: Number_toString_def)
  show "digits_value (digits n) = n"
    by (rule digits_value_digits)
  show "map snd (accepted_pairs [] (items d)) = map item_id (filter survives (records (items d)))"
    by (rule accepted_ids)
  show "buildEnum_default e this = buildEnum e this (int 4)"
    by (simp add: buildEnum_default_def)
qed

theorem buildEnum_text_witness:
  "\<forall>f. buildEnum (node_engine f) \<lparr>itemsData = Some potion_catalog\<rparr> 2 =
         Inr (js ''enum eItems {\<newline>  POTION = 7,\<newline>  POTION_2 = -3,\<newline>};\<newline>'')
     \<and> buildEnum (node_engine f) \<lparr>itemsData = Some potion_catalog\<rparr> 0 =
         Inr (js ''enum eItems {\<newline>POTION = 7,\<newline>POTION_2 = -3,\<newline>};\<newline>'')
     \<and> safe_integer (- 3) \<and> Number_toString (node_engine f) (- 3) = js ''-3''"
proof
  fix f
  have s: "safe_integer (- 3)" by (simp add: safe_integer_def)
  have a: "buildEnum (node_engine f) \<lparr>itemsData = Some potion_catalog\<rparr> 2 =
         Inr (js ''enum eItems {\<newline>  POTION = 7,\<newline>  POTION_2 = -3,\<newline>};\<newline>'')"
    using buildEnum_text [of "node_engine f" potion_catalog 2]
    unfolding enum_text_pairs [symmetric] by (simp add: node_limits potion_text)
  have b: "buildEnum (node_engine f) \<lparr>itemsData = Some potion_catalog\<rparr> 0 =
         Inr (js ''enum eItems {\<newline>POTION = 7,\<newline>POTION_2 = -3,\<newline>};\<newline>'')"
    using buildEnum_text [of "node_engine f" potion_catalog 0]
    unfolding enum_text_pairs [symmetric] by (simp add: node_limits potion_text)
  have c: "Number_toString (node_engine f) (- 3) = js ''-3''"
    using buildEnum_text [of "node_engine f" _ _ "- 3"] s by (simp add: text_eval)
  from a b c s
  show "buildEnum (node_engine f) \<lparr>itemsData = Some potion_catalog\<rparr> 2 =
         Inr (js ''enum eItems {\<newline>  POTION = 7,\<newline>  POTION_2 = -3,\<newline>};\<newline>'')
     \<and> buildEnum (node_engine f) \<lparr>itemsData = Some potion_catalog\<rparr> 0 =
         Inr (js ''enum eItems {\<newline>POTION = 7,\<newline>POTION_2 = -3,\<newline>};\<newline>'')
     \<and> safe_integer (- 3) \<and> Number_toString (node_engine f) (- 3) = js ''-3''"
    by (simp only: simp_thms)
qed

text \<open>
  C7 as stated fails: with a catalog loaded and the indent width \<open>536870912\<close>, greater
  than the length Node.js allows for a string, \<open>buildEnum\<close> returns no text; the
  \<open>repeat\<close> of line 72 raises a RangeError.
\<close>

theorem indent_too_wide:
  "\<forall>f. buildEnum (node_engine f) \<lparr>itemsData = Some potion_catalog\<rparr> 536870912 = Inl RangeError"
  by (simp add: buildEnum_def repeat_def node_engine_def length_js)




text \<open>
  C9, as amended. For every catalog of records with an integer id and any name, and every
  non-negative indent width, \<open>buildEnum\<close> returns the text of the enumeration as long
  as no limit of the engine is reached, and raises a RangeError when one is. Both loops
  end (the functions of the model are total, the search for a free name by its
  termination proof). Every record has one of two outcomes: a surviving record adds one
  line, under a name not used before, and a record whose name sanitizes to a sentinel
  leaves the state as it is; run by the engine, the step for a record gives that outcome
  or raises a RangeError. The array has one line per surviving record and no empty slot.
\<close>

theorem pipeline_total:
  "buildEnum e \<lparr>itemsData = Some d\<rparr> (int w) =
     (if within_limits e w (items d) then Inr (enum_text e (replicate w 0x20) (items d))
      else Inl RangeError)
   \<and> (if survives it
      then lineIdx (loop_body e indent (Some it) st) = lineIdx st + 1
           \<and> (\<exists>finalName. finalName \<notin> set (usedNames st)
                \<and> lines (loop_body e indent (Some it) st)
                    = array_set (lines st) (lineIdx st) (enum_line e indent finalName (item_id it))
                \<and> usedNames (loop_body e indent (Some it) st) = usedNames st @ [finalName])
      else loop_body e indent (Some it) st = st)
   \<and> loop_body e indent None st = st
   \<and> (loop_body_checked e indent item st = Inr (loop_body e indent item st)
        \<or> loop_body_checked e indent item st = Inl RangeError)
   \<and> length (enum_lines e indent its) = length (filter survives (records its))
   \<and> None \<notin> set (enum_lines e indent its)"
proof (intro conjI)
  show "buildEnum e \<lparr>itemsData = Some d\<rparr> (int w) =
     (if within_limits e w (items d) then Inr (enum_text e (replicate w 0x20) (items d))
      else Inl RangeError)"
    by (simp add: buildEnum_limits)
  show "if survives it
      then lineIdx (loop_body e indent (Some it) st) = lineIdx st + 1
           \<and> (\<exists>finalName. finalName \<notin> set (usedNames st)
                \<and> lines (loop_body e indent (Some it) st)
                    = array_set (lines st) (lineIdx st) (enum_line e indent finalName (item_id it))
                \<and> usedNames (loop_body e indent (Some it) st) = usedNames st @ [finalName])
      else loop_body e indent (Some it) st = st"
  proof (cases "survives it")
    case True
    then show ?thesis
      using resolve_fresh [of "usedNames st" "keyword_guard (sanitize (name it))"]
      by (auto simp: loop_body_survivor)
  next
    case False
    then show ?thesis by (simp add: survives_def sentinel_dropped)
  qed
  show "loop_body e indent None st = st" by (simp add: loop_body_def)
  show "loop_body_checked e indent item st = Inr (loop_body e indent item st)
        \<or> loop_body_checked e indent item st = Inl RangeError"
  proof (cases item)
    case None
    then show ?thesis by (simp add: loop_body_checked_def loop_body_def)
  next
    case (Some x)
    show ?thesis
    proof (cases "survives x")
      case True
      then show ?thesis
        unfolding Some by (simp add: loop_body_checked_survivor)
    next
      case False
      then show ?thesis
        unfolding Some by (simp add: loop_body_checked_dropped survives_def sentinel_dropped)
    qed
  qed
  have "length (enum_lines e indent its) = length (map snd (accepted_pairs [] its))"
    by (simp add: enum_lines_accepted)
  then show "length (enum_lines e indent its) = length (filter survives (records its))"
    by (simp only: accepted_ids length_map)
  show "None \<notin> set (enum_lines e indent its)"
    by (auto simp: enum_lines_accepted)
qed

theorem pipeline_total_witness:
  "\<forall>f. within_limits (node_engine f) 4 (items odd_names_catalog)
     \<and> buildEnum (node_engine f) \<lparr>itemsData = Some odd_names_catalog\<rparr> 4
         = Inr (js ''enum eItems {\<newline>    _ = 3,\<newline>};\<newline>'')
     \<and> length (enum_lines (node_engine f) (js ''    '') (items odd_names_catalog)) = 1"
proof
  fix f
  have "length (filter survives (records (items odd_names_catalog))) = 1"
    by (simp add: odd_names_catalog_def records_def survives_def sanitize_examples invalid_js)
  with pipeline_total [of "node_engine f" odd_names_catalog 4 _ "js ''    ''" _ _
      "items odd_names_catalog"]
  show "within_limits (node_engine f) 4 (items odd_names_catalog)
     \<and> buildEnum (node_engine f) \<lparr>itemsData = Some odd_names_catalog\<rparr> 4
         = Inr (js ''enum eItems {\<newline>    _ = 3,\<newline>};\<newline>'')
     \<and> length (enum_lines (node_engine f) (js ''    '') (items odd_names_catalog)) = 1"
    by (simp add: node_limits odd_text)
qed

text \<open>
  C9 as stated fails. A catalog of \<open>16777217\<close> records named \<open>A0\<close>, \<open>A1\<close>, ... has
  that many surviving records, one more than a set of Node.js holds: with the default
  indent, \<open>buildEnum\<close> raises the RangeError of \<open>usedNames.add\<close> on line 110.
\<close>

theorem set_limit_reached:
  "\<forall>f. buildEnum_default (node_engine f) \<lparr>itemsData = Some (crowded_catalog 16777217)\<rparr>
         = Inl RangeError"
  by (simp add: buildEnum_default_def buildEnum_limits within_limits_def crowded_pairs
        node_engine_def)

text \<open>
  C10. While no catalog is loaded, \<open>itemsVersion\<close> and \<open>itemsCount\<close> return \<open>-1\<close>;
  a new generator has no catalog. After a load that succeeds they return the version and
  the count the loaded document declares.
\<close>

theorem accessor_values:
  "(itemsData this = None \<longrightarrow> itemsVersion this = - 1 \<and> itemsCount this = - 1)
   \<and> itemsData new_GenerateItemsEnum = None
   \<and> (loadFromFile fs JSON_parse this filePath = Inr this' \<longrightarrow>
        (\<exists>text d. fs filePath = Some (RegularFile text) \<and> JSON_parse text = Inr d
           \<and> itemsData this' = Some d
           \<and> itemsVersion this' = version d \<and> itemsCount this' = item_count d))"
  by (auto simp: itemsVersion_def itemsCount_def new_GenerateItemsEnum_def loadFromFile_def
      split: if_splits option.splits fs_node.splits sum.splits)

theorem accessor_values_witness:
  "itemsData new_GenerateItemsEnum = None
   \<and> itemsVersion new_GenerateItemsEnum = - 1 \<and> itemsCount new_GenerateItemsEnum = - 1
   \<and> loadFromFile (\<lambda>p. Some (RegularFile [])) (\<lambda>t. Inr potion_catalog) new_GenerateItemsEnum
        (js ''items.json'') = Inr \<lparr>itemsData = Some potion_catalog\<rparr>
   \<and> itemsVersion \<lparr>itemsData = Some potion_catalog\<rparr> = 7
   \<and> itemsCount \<lparr>itemsData = Some potion_catalog\<rparr> = 2"
proof -
  have load: "loadFromFile (\<lambda>p. Some (RegularFile [])) (\<lambda>t. Inr potion_catalog)
      new_GenerateItemsEnum (js ''items.json'') = Inr \<lparr>itemsData = Some potion_catalog\<rparr>"
    by (simp add: loadFromFile_def endsWith_def js_def new_GenerateItemsEnum_def)
  have none: "itemsData new_GenerateItemsEnum = None"
    by (simp add: new_GenerateItemsEnum_def)
  from accessor_values [of new_GenerateItemsEnum "\<lambda>p. Some (RegularFile [])" "\<lambda>t. Inr potion_catalog"
      "js ''items.json''" "\<lparr>itemsData = Some potion_catalog\<rparr>"] load none
  show ?thesis by (simp add: potion_catalog_def)
qed

end
